theory Spec2Isabelle
  imports Complex_Main "HOL-Library.Word"
begin

section \<open>Go values used by the program\<close>

text \<open>
  A Go \<open>string\<close> is a sequence of bytes; it is modelled as \<open>string\<close> (a list of 8-bit
  \<open>char\<close>s).  Text is UTF-8 encoded, and the library functions that work on runes
  (\<open>strings.TrimSpace\<close>, \<open>strings.Map\<close>) decode it; the decoding is written out below.
  An \<open>int\<close> is 64 bits wide on the build target (linux/arm64).

  A \<open>float64\<close> time value is modelled as a \<open>real\<close>: the number it stands for.  Outside
  \<open>parseTimestamp\<close> the program only copies and compares the time values.  The arithmetic
  of \<open>parseTimestamp\<close> is on integers, and is written out with the rounding of \<open>float64\<close>.
\<close>

datatype error =
    ErrSyntax string string      \<comment> \<open>\<open>*strconv.NumError\<close>: function, input; invalid syntax\<close>
  | ErrRange string string       \<comment> \<open>\<open>*strconv.NumError\<close>: function, input; value out of range\<close>
  | InvalidFormat string         \<comment> \<open>\<open>invalid artist/title format: %s\<close>\<close>
  | InvalidTimeRange real real   \<comment> \<open>\<open>invalid time range: start(%f) >= end(%f)\<close>\<close>
  | FfmpegError error string     \<comment> \<open>\<open>ffmpeg error: %v\n%s\<close>\<close>
  | ExternalError string         \<comment> \<open>an error of the operating system or of a library\<close>

datatype panic = IndexOutOfRange nat nat  \<comment> \<open>index, length\<close>

subsection \<open>Package strings\<close>

definition HasPrefix :: "string \<Rightarrow> string \<Rightarrow> bool" where
  "HasPrefix s pre = (length pre \<le> length s \<and> take (length pre) s = pre)"

definition HasSuffix :: "string \<Rightarrow> string \<Rightarrow> bool" where
  "HasSuffix s suf = (length suf \<le> length s \<and> drop (length s - length suf) s = suf)"

text \<open>\<open>strings.Index\<close>: the position of the first occurrence of \<open>sep\<close>, if there is one.\<close>

fun Index :: "string \<Rightarrow> string \<Rightarrow> nat option" where
  "Index [] sep = (if sep = [] then Some 0 else None)"
| "Index (c # s) sep =
     (if HasPrefix (c # s) sep then Some 0
      else (case Index s sep of None \<Rightarrow> None | Some i \<Rightarrow> Some (Suc i)))"

text \<open>
  \<open>strings.Split\<close> and \<open>strings.SplitN\<close> with \<open>n = 2\<close>, for a separator that is not
  empty: the program's separators are the constants \<open>":"\<close> and \<open>" - "\<close>.  (With an empty
  separator Go splits after each UTF-8 sequence; that case is not modelled and the
  functions below return the whole string.)
\<close>

function Split :: "string \<Rightarrow> string \<Rightarrow> string list" where
  "Split s sep =
     (if sep = [] then [s]
      else (case Index s sep of
              None \<Rightarrow> [s]
            | Some i \<Rightarrow> take i s # Split (drop (i + length sep) s) sep))"
  by pat_completeness auto
termination
proof (relation "measure (\<lambda>(s, sep). length s)")
  show "wf (measure (\<lambda>(s, sep). length s))" by simp
next
  fix s sep :: string and i
  assume "sep \<noteq> []" and "Index s sep = Some i"
  then have "s \<noteq> []" by (cases s) auto
  with \<open>sep \<noteq> []\<close> show "((drop (i + length sep) s, sep), (s, sep)) \<in> measure (\<lambda>(s, sep). length s)"
    by simp
qed

definition SplitN2 :: "string \<Rightarrow> string \<Rightarrow> string list" where
  "SplitN2 s sep =
     (if sep = [] then [s]
      else (case Index s sep of
              None \<Rightarrow> [s]
            | Some i \<Rightarrow> [take i s, drop (i + length sep) s]))"

text \<open>\<open>strings.Join\<close>.\<close>

fun Join :: "string list \<Rightarrow> string \<Rightarrow> string" where
  "Join [] sep = []"
| "Join [x] sep = x"
| "Join (x # y # xs) sep = x @ sep @ Join (y # xs) sep"

text \<open>
  UTF-8 decoding as \<open>utf8.DecodeRuneInString\<close> does it: \<open>runeWidth s\<close> is the number of
  bytes of the well-formed encoding at the head of \<open>s\<close>, and 0 when there is none (Go then
  reads one byte as \<open>utf8.RuneError\<close>, U+FFFD).
\<close>

definition inRange :: "char \<Rightarrow> nat \<Rightarrow> nat \<Rightarrow> bool" where
  "inRange b lo hi = (lo \<le> of_char b \<and> (of_char b :: nat) \<le> hi)"

fun runeWidth :: "string \<Rightarrow> nat" where
  "runeWidth [] = 0"
| "runeWidth (b0 # bs) =
     (let x = (of_char b0 :: nat) in
      if x < 0x80 then 1
      else if 0xC2 \<le> x \<and> x \<le> 0xDF then
        (case bs of
           b1 # _ \<Rightarrow> if inRange b1 0x80 0xBF then 2 else 0
         | _ \<Rightarrow> 0)
      else if 0xE0 \<le> x \<and> x \<le> 0xEF then
        (case bs of
           b1 # b2 # _ \<Rightarrow>
             if inRange b1 (if x = 0xE0 then 0xA0 else 0x80) (if x = 0xED then 0x9F else 0xBF)
                \<and> inRange b2 0x80 0xBF
             then 3 else 0
         | _ \<Rightarrow> 0)
      else if 0xF0 \<le> x \<and> x \<le> 0xF4 then
        (case bs of
           b1 # b2 # b3 # _ \<Rightarrow>
             if inRange b1 (if x = 0xF0 then 0x90 else 0x80) (if x = 0xF4 then 0x8F else 0xBF)
                \<and> inRange b2 0x80 0xBF \<and> inRange b3 0x80 0xBF
             then 4 else 0
         | _ \<Rightarrow> 0)
      else 0)"

text \<open>A string is well-formed UTF-8 when it decodes rune by rune without \<open>utf8.RuneError\<close> bytes.\<close>

function validUTF8 :: "string \<Rightarrow> bool" where
  "validUTF8 s =
     (if s = [] then True
      else if runeWidth s = 0 then False
      else validUTF8 (drop (runeWidth s) s))"
  by pat_completeness auto
termination
  by (relation "measure length") auto

text \<open>
  The UTF-8 encodings of the runes for which \<open>unicode.IsSpace\<close> holds: the six ASCII
  ones, U+0085, U+00A0, U+1680, U+2000 to U+200A, U+2028, U+2029, U+202F, U+205F, U+3000.
\<close>

definition spaceRunes :: "string list" where
  "spaceRunes =
     [[CHR 0x09], [CHR 0x0A], [CHR 0x0B], [CHR 0x0C], [CHR 0x0D], [CHR 0x20],
      [CHR 0xC2, CHR 0x85], [CHR 0xC2, CHR 0xA0], [CHR 0xE1, CHR 0x9A, CHR 0x80],
      [CHR 0xE2, CHR 0x80, CHR 0x80], [CHR 0xE2, CHR 0x80, CHR 0x81],
      [CHR 0xE2, CHR 0x80, CHR 0x82], [CHR 0xE2, CHR 0x80, CHR 0x83],
      [CHR 0xE2, CHR 0x80, CHR 0x84], [CHR 0xE2, CHR 0x80, CHR 0x85],
      [CHR 0xE2, CHR 0x80, CHR 0x86], [CHR 0xE2, CHR 0x80, CHR 0x87],
      [CHR 0xE2, CHR 0x80, CHR 0x88], [CHR 0xE2, CHR 0x80, CHR 0x89],
      [CHR 0xE2, CHR 0x80, CHR 0x8A], [CHR 0xE2, CHR 0x80, CHR 0xA8],
      [CHR 0xE2, CHR 0x80, CHR 0xA9], [CHR 0xE2, CHR 0x80, CHR 0xAF],
      [CHR 0xE2, CHR 0x81, CHR 0x9F], [CHR 0xE3, CHR 0x80, CHR 0x80]]"

text \<open>
  \<open>strings.TrimSpace\<close>: the leading runes that are white space are removed, then the
  trailing ones (\<open>utf8.DecodeLastRuneInString\<close> reads a rune's encoding backwards from
  the end).
\<close>

function TrimLeft :: "string \<Rightarrow> string" where
  "TrimLeft s =
     (case find (\<lambda>e. HasPrefix s e) spaceRunes of
        None \<Rightarrow> s
      | Some e \<Rightarrow> if e = [] then s else TrimLeft (drop (length e) s))"
  by pat_completeness auto
termination
proof (relation "measure length")
  show "wf (measure (length :: string \<Rightarrow> nat))" by simp
next
  fix s e :: string
  assume "find (\<lambda>e. HasPrefix s e) spaceRunes = Some e" and "e \<noteq> []"
  then have "length e \<le> length s" and "0 < length e"
    by (auto simp: find_Some_iff HasPrefix_def)
  then show "(drop (length e) s, s) \<in> measure length" by (cases e) auto
qed

function TrimRight :: "string \<Rightarrow> string" where
  "TrimRight s =
     (case find (\<lambda>e. HasSuffix s e) spaceRunes of
        None \<Rightarrow> s
      | Some e \<Rightarrow> if e = [] then s else TrimRight (take (length s - length e) s))"
  by pat_completeness auto
termination
proof (relation "measure length")
  show "wf (measure (length :: string \<Rightarrow> nat))" by simp
next
  fix s e :: string
  assume "find (\<lambda>e. HasSuffix s e) spaceRunes = Some e" and "e \<noteq> []"
  then have "length e \<le> length s" and "0 < length e"
    by (auto simp: find_Some_iff HasSuffix_def)
  then show "(take (length s - length e) s, s) \<in> measure length" by (cases e) auto
qed

definition TrimSpace :: "string \<Rightarrow> string" where
  "TrimSpace s = TrimRight (TrimLeft s)"

subsection \<open>Package strconv\<close>

definition isDigit :: "char \<Rightarrow> bool" where
  "isDigit c = inRange c 0x30 0x39"

definition digitVal :: "char \<Rightarrow> int" where
  "digitVal c = int (of_char c) - 0x30"

datatype numErr = Syntax | Range

text \<open>
  \<open>strconv.ParseUint(s, 10, 64)\<close>: the loop over the bytes of \<open>s\<close>, with the value read
  so far (a \<open>uint64\<close>, as an \<open>int\<close> with the bound written out).  A byte that is not a
  digit is a syntax error; a value above \<open>2 ^ 64 - 1\<close> is a range error, found at the
  digit that exceeds it (the bytes after it are not read).
\<close>

definition maxUint64 :: int where
  "maxUint64 = 2 ^ 64 - 1"

fun ParseUint_loop :: "int \<Rightarrow> string \<Rightarrow> int \<times> numErr option" where
  "ParseUint_loop n [] = (n, None)"
| "ParseUint_loop n (c # cs) =
     (if \<not> isDigit c then (0, Some Syntax)
      else if n \<ge> maxUint64 div 10 + 1 then (maxUint64, Some Range)
      else if n * 10 + digitVal c > maxUint64 then (maxUint64, Some Range)
      else ParseUint_loop (n * 10 + digitVal c) cs)"

definition ParseUint :: "string \<Rightarrow> int \<times> numErr option" where
  "ParseUint s = (if s = [] then (0, Some Syntax) else ParseUint_loop 0 s)"

text \<open>\<open>strconv.ParseInt(s, 10, 0)\<close>: an optional sign, then \<open>ParseUint\<close>, then the range of \<open>int64\<close>.\<close>

definition ParseInt :: "string \<Rightarrow> int \<times> numErr option" where
  "ParseInt s0 =
     (if s0 = [] then (0, Some Syntax)
      else
        let neg = (hd s0 = CHR ''-'');
            s = (if hd s0 = CHR ''+'' \<or> hd s0 = CHR ''-'' then tl s0 else s0)
        in (case ParseUint s of
              (un, Some Syntax) \<Rightarrow> (0, Some Syntax)
            | (un, _) \<Rightarrow>
                if \<not> neg \<and> un \<ge> 2 ^ 63 then (2 ^ 63 - 1, Some Range)
                else if neg \<and> un > 2 ^ 63 then (- (2 ^ 63), Some Range)
                else (if neg then - un else un, None)))"

text \<open>
  \<open>strconv.Atoi\<close>: \<open>ParseInt\<close> with the error naming \<open>Atoi\<close> (the fast path of \<open>Atoi\<close>
  for inputs of fewer than 19 bytes computes the same result).
\<close>

definition Atoi :: "string \<Rightarrow> int \<times> error option" where
  "Atoi s =
     (case ParseInt s of
        (n, None) \<Rightarrow> (n, None)
      | (n, Some Syntax) \<Rightarrow> (n, Some (ErrSyntax ''Atoi'' s))
      | (n, Some Range) \<Rightarrow> (n, Some (ErrRange ''Atoi'' s)))"

subsection \<open>Package fmt\<close>

text \<open>The decimal digits of a number, and the verb \<open>%02d\<close> on a number that is not negative.\<close>

function decimal :: "nat \<Rightarrow> string" where
  "decimal n = (if n < 10 then [char_of (0x30 + n)] else decimal (n div 10) @ [char_of (0x30 + n mod 10)])"
  by pat_completeness auto
termination
  by (relation "measure id") auto

definition fmt02d :: "nat \<Rightarrow> string" where
  "fmt02d n = replicate (2 - length (decimal n)) (CHR ''0'') @ decimal n"

subsection \<open>Package regexp\<close>

text \<open>
  The regular expressions of the program use the anchors \<open>^\<close> and \<open>$\<close>, single
  characters and character classes, the repetitions \<open>+\<close>, \<open>*\<close> and \<open>+?\<close> of a class, the
  greedy option \<open>?\<close>, concatenation, and capturing groups.  Go's \<open>regexp\<close> returns the match
  that a backtracking search finds first (leftmost-first).  \<open>run r w i c\<close> lists, in the
  order in which a backtracking search tries them, the ways of matching \<open>r\<close> in \<open>w\<close> from
  position \<open>i\<close>: each with the position where the match ends and the groups captured so
  far.  Since every ASCII byte is a rune of its own in UTF-8, and these expressions bound
  every \<open>.\<close> repetition by ASCII characters or by the end of the text, matching bytes
  gives the same groups as matching runes.
\<close>

type_synonym caps = "nat \<Rightarrow> (nat \<times> nat) option"

datatype re =
    Bol                              \<comment> \<open>\<open>^\<close>\<close>
  | Eol                              \<comment> \<open>\<open>$\<close>\<close>
  | Cls "char \<Rightarrow> bool"               \<comment> \<open>one character of a class\<close>
  | Rep "char \<Rightarrow> bool" nat bool      \<comment> \<open>a class repeated at least \<open>m\<close> times; greedy or not\<close>
  | Opt re                           \<comment> \<open>\<open>r?\<close>, greedy\<close>
  | Seq re re
  | Cap nat re                       \<comment> \<open>capturing group number \<open>n\<close>\<close>

fun run :: "re \<Rightarrow> string \<Rightarrow> nat \<Rightarrow> caps \<Rightarrow> (nat \<times> caps) list" where
  "run Bol w i c = (if i = 0 then [(i, c)] else [])"
| "run Eol w i c = (if i = length w then [(i, c)] else [])"
| "run (Cls P) w i c = (if i < length w \<and> P (w ! i) then [(Suc i, c)] else [])"
| "run (Rep P m greedy) w i c =
     (let k = length (takeWhile P (drop i w));
          ends = [i + m ..< Suc (i + k)]
      in map (\<lambda>j. (j, c)) (if greedy then rev ends else ends))"
| "run (Opt r) w i c = run r w i c @ [(i, c)]"
| "run (Seq r1 r2) w i c = concat (map (\<lambda>(j, c'). run r2 w j c') (run r1 w i c))"
| "run (Cap n r) w i c = map (\<lambda>(j, c'). (j, c'(n \<mapsto> (i, j)))) (run r w i c)"

fun NumSubexp :: "re \<Rightarrow> nat" where
  "NumSubexp (Opt r) = NumSubexp r"
| "NumSubexp (Seq r1 r2) = max (NumSubexp r1) (NumSubexp r2)"
| "NumSubexp (Cap n r) = max n (NumSubexp r)"
| "NumSubexp _ = 0"

text \<open>
  \<open>(*Regexp).FindStringSubmatch\<close>: the leftmost match, as the list of the text of the
  whole match and of each group; a group that took no part in the match gives the empty
  string; \<open>None\<close> is the \<open>nil\<close> slice of no match.
\<close>

definition FindStringSubmatch :: "re \<Rightarrow> string \<Rightarrow> string list option" where
  "FindStringSubmatch r w =
     (case find (\<lambda>p. run r w p Map.empty \<noteq> []) [0 ..< Suc (length w)] of
        None \<Rightarrow> None
      | Some p \<Rightarrow>
          (case run r w p Map.empty of
             [] \<Rightarrow> None
           | (j, c) # _ \<Rightarrow>
               Some (map (\<lambda>n. case (c(0 \<mapsto> (p, j))) n of
                                None \<Rightarrow> []
                              | Some (a, b) \<Rightarrow> take (b - a) (drop a w))
                         [0 ..< Suc (NumSubexp r)])))"

abbreviation Lit :: "char \<Rightarrow> re" where
  "Lit x \<equiv> Cls (\<lambda>c. c = x)"

text \<open>The classes \<open>\d\<close>, \<open>\s\<close> (which is \<open>[\t\n\f\r ]\<close> in Go) and \<open>.\<close> (any character but a newline).\<close>

definition reSpace :: "char \<Rightarrow> bool" where
  "reSpace c = (c \<in> set [CHR 0x09, CHR 0x0A, CHR 0x0C, CHR 0x0D, CHR 0x20])"

definition reDot :: "char \<Rightarrow> bool" where
  "reDot c = (c \<noteq> CHR 0x0A)"

section \<open>The tracklist parser\<close>

record AdditionalTrack =
  Artist :: string
  Title :: string
  Label :: string

record Track =
  StartTime :: real
  EndTime :: real
  MainArtist :: string
  MainTitle :: string
  MainLabel :: string
  Additional :: "AdditionalTrack list"
  OutputFilename :: string

text \<open>The timestamp expression \<open>\d+:?\d*:\d+\<close> of group 1 of \<open>lineRe\<close>.\<close>

definition tsRe :: re where
  "tsRe =
     Seq (Rep isDigit 1 True) (Seq (Opt (Lit CHR '':'')) (Seq (Rep isDigit 0 True)
       (Seq (Lit CHR '':'') (Rep isDigit 1 True))))"

text \<open>The optional label \<open>(?:\s\[(.+)\])?\<close> with its group number.\<close>

definition labelRe :: "nat \<Rightarrow> re" where
  "labelRe n =
     Opt (Seq (Cls reSpace) (Seq (Lit CHR ''['') (Seq (Cap n (Rep reDot 1 True)) (Lit CHR '']''))))"

text \<open>\<open>lineRe\<close> is \<open>^\[(\d+:?\d*:\d+)\]\s(.+?)(?:\s\[(.+)\])?$\<close>.\<close>

definition lineRe :: re where
  "lineRe =
     Seq Bol (Seq (Lit CHR ''['') (Seq (Cap 1 tsRe) (Seq (Lit CHR '']'') (Seq (Cls reSpace)
       (Seq (Cap 2 (Rep reDot 1 False)) (Seq (labelRe 3) Eol))))))"

text \<open>\<open>wRe\<close> is \<open>^w/\s(.+?)(?:\s\[(.+)\])?$\<close>.\<close>

definition wRe :: re where
  "wRe =
     Seq Bol (Seq (Lit CHR ''w'') (Seq (Lit CHR ''/'') (Seq (Cls reSpace)
       (Seq (Cap 1 (Rep reDot 1 False)) (Seq (labelRe 2) Eol)))))"

text \<open>
  \<open>parseTimestamp\<close>.  Indexing \<open>multipliers\<close> beyond its three elements is a run-time
  panic of Go; it is the \<open>Inl\<close> result.
\<close>

text \<open>
  Every \<open>float64\<close> that \<open>parseTimestamp\<close> computes is an integer: the conversion of an
  \<open>int\<close>, its product with 1, 60 or 3600, a sum of such products.  These values are kept as
  \<open>int\<close>, and each operation gives the nearest number with a significand of 53 bits, a
  tie going to the even significand, as IEEE 754 arithmetic and the conversion
  \<open>float64(val)\<close> do.  Their magnitude stays far below the largest \<open>float64\<close>.
\<close>

function bitLength :: "int \<Rightarrow> nat" where
  "bitLength n = (if n \<le> 0 then 0 else Suc (bitLength (n div 2)))"
  by pat_completeness auto
termination
  by (relation "measure nat") auto

definition roundFloat64 :: "int \<Rightarrow> int" where
  "roundFloat64 n =
     (let e = bitLength \<bar>n\<bar> - 53 in
      if e = 0 then n
      else
        let q = \<bar>n\<bar> div 2 ^ e;
            r = \<bar>n\<bar> mod 2 ^ e;
            q' = (if 2 * r > 2 ^ e \<or> (2 * r = 2 ^ e \<and> odd q) then q + 1 else q)
        in sgn n * (q' * 2 ^ e))"

text \<open>
  The statement \<open>total += x * m\<close> on \<open>float64\<close> values.  The Go specification lets an
  implementation fuse a multiplication and an addition into one operation that rounds once;
  the compiler does so on arm64, the build target of the repository, and not on amd64,
  where the product is rounded before the sum is.
\<close>

definition fusedMultiplyAdd :: bool where
  "fusedMultiplyAdd = True"

definition addProduct :: "int \<Rightarrow> int \<Rightarrow> int \<Rightarrow> int" where
  "addProduct total' x m =
     (if fusedMultiplyAdd then roundFloat64 (total' + x * m)
      else roundFloat64 (total' + roundFloat64 (x * m)))"

definition multipliers :: "int list" where
  "multipliers = [1, 60, 3600]"

function parseTimestamp_loop :: "string list \<Rightarrow> nat \<Rightarrow> int \<Rightarrow> panic + real \<times> error option" where
  "parseTimestamp_loop parts i total' =
     (if i < length parts then
        (case Atoi (parts ! (length parts - 1 - i)) of
           (val, Some err) \<Rightarrow> Inr (0, Some err)
         | (val, None) \<Rightarrow>
             if i < length multipliers
             then parseTimestamp_loop parts (Suc i)
                    (addProduct total' (roundFloat64 val) (multipliers ! i))
             else Inl (IndexOutOfRange i (length multipliers)))
      else Inr (of_int total', None))"
  by pat_completeness auto
termination
  by (relation "measure (\<lambda>(parts, i, total'). length parts - i)") auto

definition parseTimestamp :: "string \<Rightarrow> panic + real \<times> error option" where
  "parseTimestamp ts = parseTimestamp_loop (Split ts '':'') 0 0"

definition parseArtistTitle :: "string \<Rightarrow> string \<times> string \<times> error option" where
  "parseArtistTitle s =
     (let parts = SplitN2 s '' - '' in
      if length parts \<noteq> 2 then ([], [], Some (InvalidFormat s))
      else (parts ! 0, parts ! 1, None))"

text \<open>
  \<open>parseTracklist\<close> reads the file through a \<open>bufio.Scanner\<close>.  What \<open>os.Open\<close> and the
  scanner give is the input of the model: either the error of \<open>os.Open\<close>, or the lines
  that the calls of \<open>scanner.Scan\<close> yield, with the value of \<open>scanner.Err()\<close> after them.
\<close>

datatype opened = OpenFails error | Opened "string list" "error option"

text \<open>
  One turn of the loop over the lines, on the variables \<open>tracks\<close> and \<open>currentTrack\<close>:
  the turn panics, or returns from \<open>parseTracklist\<close> with an error, or goes on to the next
  line with the variables as it leaves them.
\<close>

datatype turn = Panics panic | Returns error | Next "Track list" "Track option"

definition loopBody :: "Track list \<Rightarrow> Track option \<Rightarrow> string \<Rightarrow> turn" where
  "loopBody tracks currentTrack text =
     (let line = TrimSpace text in
      if line = [] then Next tracks currentTrack
      else
        (case FindStringSubmatch lineRe line of
           Some matches \<Rightarrow>
             (let tracks' = (case currentTrack of Some t \<Rightarrow> tracks @ [t] | None \<Rightarrow> tracks) in
              case parseTimestamp (matches ! 1) of
                Inl p \<Rightarrow> Panics p
              | Inr (start, Some err) \<Rightarrow> Returns err
              | Inr (start, None) \<Rightarrow>
                  if HasSuffix (matches ! 2) ''On Stage'' then Next tracks' currentTrack
                  else
                    (case parseArtistTitle (matches ! 2) of
                       (artist, title, Some err) \<Rightarrow> Returns err
                     | (artist, title, None) \<Rightarrow>
                         let label = (if length matches > 3 \<and> matches ! 3 \<noteq> [] then matches ! 3 else [])
                         in Next tracks'
                              (Some \<lparr>StartTime = start, EndTime = 0, MainArtist = artist,
                                     MainTitle = title, MainLabel = label, Additional = [],
                                     OutputFilename = []\<rparr>)))
         | None \<Rightarrow>
             if HasPrefix line ''w/'' then
               (case currentTrack of
                  None \<Rightarrow> Next tracks currentTrack
                | Some t \<Rightarrow>
                    (case FindStringSubmatch wRe line of
                       None \<Rightarrow> Next tracks currentTrack
                     | Some matches \<Rightarrow>
                         (case parseArtistTitle (matches ! 1) of
                            (artist, title, Some err) \<Rightarrow> Returns err
                          | (artist, title, None) \<Rightarrow>
                              Next tracks
                                (Some (t\<lparr>Additional := Additional t @
                                         [\<lparr>Artist = artist, Title = title, Label = matches ! 2\<rparr>]\<rparr>)))))
             else Next tracks currentTrack))"

fun parseTracklist_loop :: "Track list \<Rightarrow> Track option \<Rightarrow> string list \<Rightarrow> turn" where
  "parseTracklist_loop tracks currentTrack [] = Next tracks currentTrack"
| "parseTracklist_loop tracks currentTrack (text # rest) =
     (case loopBody tracks currentTrack text of
        Next tracks' currentTrack' \<Rightarrow> parseTracklist_loop tracks' currentTrack' rest
      | Panics p \<Rightarrow> Panics p
      | Returns err \<Rightarrow> Returns err)"

definition parseTracklist :: "opened \<Rightarrow> panic + Track list \<times> string \<times> error option" where
  "parseTracklist file =
     (case file of
        OpenFails err \<Rightarrow> Inr ([], [], Some err)
      | Opened lines scanErr \<Rightarrow>
          (let header = (case lines of [] \<Rightarrow> [] | h # _ \<Rightarrow> h) in
           case parseTracklist_loop [] None (tl lines) of
             Panics p \<Rightarrow> Inl p
           | Returns err \<Rightarrow> Inr ([], [], Some err)
           | Next tracks currentTrack \<Rightarrow>
               Inr ((case currentTrack of Some t \<Rightarrow> tracks @ [t] | None \<Rightarrow> tracks),
                    header, scanErr)))"

section \<open>The timeline resolver\<close>

text \<open>
  \<open>calculateEndTimes\<close> and \<open>createFilenames\<close> update the slice in place, one index after
  the other; the loops are written with the index and the slice as it stands.
\<close>

function calculateEndTimes_loop :: "nat \<Rightarrow> Track list \<Rightarrow> real \<Rightarrow> Track list" where
  "calculateEndTimes_loop i tracks duration =
     (if i < length tracks then
        calculateEndTimes_loop (Suc i)
          (tracks[i := (tracks ! i)\<lparr>EndTime :=
             (if int i < int (length tracks) - 1 then StartTime (tracks ! (i + 1)) else duration)\<rparr>])
          duration
      else tracks)"
  by pat_completeness auto
termination
  by (relation "measure (\<lambda>(i, tracks, duration). length tracks - i)") auto

definition calculateEndTimes :: "Track list \<Rightarrow> real \<Rightarrow> Track list" where
  "calculateEndTimes tracks duration = calculateEndTimes_loop 0 tracks duration"

text \<open>The characters \<open><>:"/\|?*\<close> that \<open>sanitizeFilename\<close> looks for.\<close>

definition forbidden :: string where
  "forbidden =
     [CHR ''<'', CHR ''>'', CHR '':'', CHR 0x22, CHR ''/'', CHR 0x5C, CHR ''|'', CHR ''?'', CHR ''*'']"

text \<open>
  \<open>sanitizeFilename\<close> is \<open>strings.Map\<close> with a mapping that drops the runes of
  \<open>forbidden\<close> and keeps every other rune.  \<open>strings.Map\<close> decodes the string rune by
  rune; a byte that is no well-formed UTF-8 is read as U+FFFD, which the mapping keeps,
  and is written as the three bytes of U+FFFD.
\<close>

function sanitizeFilename :: "string \<Rightarrow> string" where
  "sanitizeFilename name =
     (if name = [] then []
      else if runeWidth name = 0 then
        [CHR 0xEF, CHR 0xBF, CHR 0xBD] @ sanitizeFilename (tl name)
      else if runeWidth name = 1 \<and> hd name \<in> set forbidden then sanitizeFilename (tl name)
      else take (runeWidth name) name @ sanitizeFilename (drop (runeWidth name) name))"
  by pat_completeness auto
termination
  by (relation "measure length") auto

function createFilenames_loop :: "nat \<Rightarrow> Track list \<Rightarrow> string \<Rightarrow> Track list" where
  "createFilenames_loop i tracks ext =
     (if i < length tracks then
        createFilenames_loop (Suc i)
          (tracks[i := (tracks ! i)\<lparr>OutputFilename :=
             ''output/'' @ fmt02d (i + 1) @ '' - '' @ sanitizeFilename (MainArtist (tracks ! i))
               @ '' - '' @ sanitizeFilename (MainTitle (tracks ! i)) @ ext\<rparr>])
          ext
      else tracks)"
  by pat_completeness auto
termination
  by (relation "measure (\<lambda>(i, tracks, ext). length tracks - i)") auto

definition createFilenames :: "Track list \<Rightarrow> string \<Rightarrow> Track list" where
  "createFilenames tracks ext = createFilenames_loop 0 tracks ext"

section \<open>The extraction job\<close>

definition buildTitle :: "Track \<Rightarrow> string" where
  "buildTitle t = foldl (\<lambda>title add. title @ '' / '' @ Title add) (MainTitle t) (Additional t)"

definition buildComment :: "Track \<Rightarrow> string" where
  "buildComment t =
     ''Additional tracks: '' @
       Join (foldl (\<lambda>comments add.
                      comments @ [Artist add @ '' - '' @ Title add @ '' ['' @ Label add @ '']''])
               [] (Additional t))
            ''; ''"

definition buildMetadata :: "Track \<Rightarrow> string \<Rightarrow> string list" where
  "buildMetadata t album =
     [''-metadata'', ''title='' @ buildTitle t,
      ''-metadata'', ''artist='' @ MainArtist t,
      ''-metadata'', ''album='' @ album,
      ''-metadata'', ''date='' @ ''2025'',
      ''-metadata'', ''comment='' @ buildComment t]
     @ (if MainLabel t \<noteq> [] then [''-metadata'', ''publisher='' @ MainLabel t] else [])"

text \<open>
  \<open>processTrack\<close> in its environment: \<open>fmtF\<close> is the verb \<open>%f\<close> on a \<open>float64\<close>,
  \<open>videoFlag\<close> the value of the flag \<open>--video\<close>, and \<open>ffmpeg\<close> the external tool, which
  for an argument list gives its output and the error of \<open>cmd.CombinedOutput()\<close>.  The
  result is the list of the argument lists the function has started \<open>ffmpeg\<close> with, and
  the error it returns.
\<close>

record env =
  fmtF :: "real \<Rightarrow> string"
  videoFlag :: bool
  ffmpeg :: "string list \<Rightarrow> string \<times> error option"

definition processTrack :: "env \<Rightarrow> Track \<Rightarrow> string \<Rightarrow> string \<Rightarrow> string list list \<times> error option" where
  "processTrack e t inputPath album =
     (if StartTime t \<ge> EndTime t then ([], Some (InvalidTimeRange (StartTime t) (EndTime t)))
      else
        let args =
              [''-v'', ''warning'',
               ''-ss'', fmtF e (StartTime t),
               ''-i'', inputPath,
               ''-t'', fmtF e (EndTime t - StartTime t),
               ''-max_muxing_queue_size'', ''1024'',
               ''-threads'', ''2'']
              @ (if videoFlag e then
                   [''-c:v'', ''libx264'', ''-preset'', ''veryfast'', ''-crf'', ''23'',
                    ''-vsync'', ''cfr'', ''-profile:v'', ''baseline'', ''-level'', ''3.0'',
                    ''-tune'', ''fastdecode'', ''-c:a'', ''aac'', ''-b:a'', ''192k'',
                    ''-ac'', ''2'', ''-ar'', ''48000'', ''-movflags'', ''+faststart'', ''-y'']
                 else [''-c:a'', ''libmp3lame'', ''-q:a'', ''2''])
              @ buildMetadata t album
              @ [OutputFilename t]
        in (case ffmpeg e args of
              (output, Some err) \<Rightarrow> ([args], Some (FfmpegError err output))
            | (output, None) \<Rightarrow> ([args], None)))"

section \<open>One unit of the pipeline\<close>

text \<open>
  The state that the units of \<open>processTracksConcurrently\<close> share: the failure counter
  \<open>errCount\<close> (an \<open>atomic.Int32\<close>), the progress bar's count, the records written to
  the log (track title and error), and the \<open>ffmpeg\<close> invocations started so far.  A unit
  waits in a \<open>select\<close> for a slot of the semaphore or for the cancellation; which of the
  two it gets is the \<open>slot\<close> argument.  The body of a unit changes the shared state by
  atomic additions only, so it is modelled as one step on that state.
\<close>

record shared =
  errCount :: "32 word"
  bar :: int
  logged :: "(string \<times> error) list"
  started :: "string list list"

datatype slot = Acquired | Cancelled

definition worker :: "env \<Rightarrow> string \<Rightarrow> string \<Rightarrow> slot \<Rightarrow> Track \<Rightarrow> shared \<Rightarrow> shared" where
  "worker e inputPath album sl t st =
     (case sl of
        Cancelled \<Rightarrow> st
      | Acquired \<Rightarrow>
          (case processTrack e t inputPath album of
             (cmds, Some err) \<Rightarrow>
               st\<lparr>errCount := errCount st + 1, bar := bar st + 1,
                  logged := logged st @ [(MainTitle t, err)], started := started st @ cmds\<rparr>
           | (cmds, None) \<Rightarrow>
               st\<lparr>bar := bar st + 1, started := started st @ cmds\<rparr>))"

section \<open>Example values\<close>

text \<open>A track as the parser makes it, with the given start time, artist and title.\<close>

definition exampleTrack :: "real \<Rightarrow> string \<Rightarrow> string \<Rightarrow> Track" where
  "exampleTrack start artist title =
     \<lparr>StartTime = start, EndTime = 0, MainArtist = artist, MainTitle = title,
      MainLabel = [], Additional = [], OutputFilename = []\<rparr>"

text \<open>An environment whose \<open>ffmpeg\<close> fails on every invocation, and the shared state at the start.\<close>

definition failingEnv :: env where
  "failingEnv = \<lparr>fmtF = (\<lambda>x. []), videoFlag = False,
                  ffmpeg = (\<lambda>args. (''no such file'', Some (ExternalError ''exit status 1'')))\<rparr>"

definition emptyShared :: shared where
  "emptyShared = \<lparr>errCount = 0, bar = 0, logged = [], started = []\<rparr>"

declare Split.simps [simp del]
declare validUTF8.simps [simp del]
declare TrimLeft.simps [simp del]
declare TrimRight.simps [simp del]
declare decimal.simps [simp del]
declare parseTimestamp_loop.simps [simp del]
declare bitLength.simps [simp del]
declare sanitizeFilename.simps [simp del]
declare createFilenames_loop.simps [simp del]

text \<open>
  The text of \<open>w\<close> from position \<open>i\<close> up to position \<open>j\<close>, and the set of the texts that a
  regular expression can match (the anchors match the empty text).
\<close>

definition sub :: "string \<Rightarrow> nat \<Rightarrow> nat \<Rightarrow> string" where
  "sub w i j = take (j - i) (drop i w)"

fun lang :: "re \<Rightarrow> string set" where
  "lang Bol = {[]}"
| "lang Eol = {[]}"
| "lang (Cls P) = {[c] | c. P c}"
| "lang (Rep P m g) = {s. m \<le> length s \<and> (\<forall>c \<in> set s. P c)}"
| "lang (Opt r) = insert [] (lang r)"
| "lang (Seq r1 r2) = {x @ y | x y. x \<in> lang r1 \<and> y \<in> lang r2}"
| "lang (Cap n r) = lang r"

text \<open>
  A line opens a track when \<open>lineRe\<close> matches it, trimmed, and it is no stage announcement.
\<close>

definition opensTrack :: "string \<Rightarrow> bool" where
  "opensTrack text =
     (case FindStringSubmatch lineRe (TrimSpace text) of
        None \<Rightarrow> False
      | Some matches \<Rightarrow> \<not> HasSuffix (matches ! 2) ''On Stage'')"

section \<open>End times\<close>

declare calculateEndTimes_loop.simps [simp del]

lemma calculateEndTimes_loop_length:
  "length (calculateEndTimes_loop i tracks D) = length tracks"
  by (induction i tracks D rule: calculateEndTimes_loop.induct)
     (subst calculateEndTimes_loop.simps, simp)

text \<open>
  The loop invariant: from index \<open>i\<close> on, every track gets its end time from the start
  time of its successor in the slice (the loop never writes a start time), and the tracks
  before \<open>i\<close> are left as they are.
\<close>

lemma calculateEndTimes_loop_nth:
  "j < length tracks \<Longrightarrow>
   calculateEndTimes_loop i tracks D ! j =
     (if i \<le> j
      then (tracks ! j)\<lparr>EndTime := (if Suc j < length tracks then StartTime (tracks ! Suc j) else D)\<rparr>
      else tracks ! j)"
proof (induction i tracks D arbitrary: j rule: calculateEndTimes_loop.induct)
  case (1 i tracks D)
  show ?case
  proof (cases "i < length tracks")
    case False
    with "1.prems" show ?thesis
      by (subst calculateEndTimes_loop.simps) simp
  next
    case True
    let ?t = "tracks[i := (tracks ! i)\<lparr>EndTime :=
             (if int i < int (length tracks) - 1 then StartTime (tracks ! (i + 1)) else D)\<rparr>]"
    have "calculateEndTimes_loop i tracks D ! j = calculateEndTimes_loop (Suc i) ?t D ! j"
      using True by (subst calculateEndTimes_loop.simps) simp
    also have "\<dots> = (if Suc i \<le> j
      then (?t ! j)\<lparr>EndTime := (if Suc j < length ?t then StartTime (?t ! Suc j) else D)\<rparr>
      else ?t ! j)"
      using "1.IH"[OF True, of j] "1.prems" by simp
    also have "\<dots> = (if i \<le> j
      then (tracks ! j)\<lparr>EndTime := (if Suc j < length tracks then StartTime (tracks ! Suc j) else D)\<rparr>
      else tracks ! j)"
    proof (cases "j = i")
      case True
      with \<open>i < length tracks\<close> show ?thesis by auto
    next
      case False
      with \<open>i < length tracks\<close> "1.prems" show ?thesis by (auto simp: nth_list_update)
    qed
    finally show ?thesis .
  qed
qed

text \<open>
  C5.  End-time resolution keeps the number of tracks and their start times; the end time
  of every track but the last is the start time of the next track, and the end time of the
  last track is the total duration.  In particular, tracks that start at 0, 30 and 90 in a
  medium of duration 120 end at 30, 90 and 120.
\<close>

theorem calculateEndTimes_endTimes:
  "length (calculateEndTimes tracks D) = length tracks \<and>
   (\<forall>i < length tracks.
      EndTime (calculateEndTimes tracks D ! i) =
        (if i + 1 < length tracks then StartTime (tracks ! (i + 1)) else D) \<and>
      StartTime (calculateEndTimes tracks D ! i) = StartTime (tracks ! i)) \<and>
   (map StartTime tracks = [0, 30, 90] \<longrightarrow> map EndTime (calculateEndTimes tracks 120) = [30, 90, 120])"
proof (intro conjI allI impI)
  show "length (calculateEndTimes tracks D) = length tracks"
    by (simp add: calculateEndTimes_def calculateEndTimes_loop_length)
next
  fix i assume "i < length tracks"
  then show "EndTime (calculateEndTimes tracks D ! i) =
        (if i + 1 < length tracks then StartTime (tracks ! (i + 1)) else D)"
    by (simp add: calculateEndTimes_def calculateEndTimes_loop_nth)
next
  fix i assume "i < length tracks"
  then show "StartTime (calculateEndTimes tracks D ! i) = StartTime (tracks ! i)"
    by (simp add: calculateEndTimes_def calculateEndTimes_loop_nth)
next
  assume a: "map StartTime tracks = [0, 30, 90]"
  then obtain a b c where t: "tracks = [a, b, c]" by auto
  with a have s: "StartTime b = 30" "StartTime c = 90" by auto
  let ?r = "calculateEndTimes tracks 120"
  have "length ?r = Suc (Suc (Suc 0))"
    by (simp add: t calculateEndTimes_def calculateEndTimes_loop_length)
  then obtain x y z where r: "?r = [x, y, z]"
    by (auto simp: length_Suc_conv)
  have "EndTime (?r ! 0) = 30" "EndTime (?r ! 1) = 90" "EndTime (?r ! 2) = 120"
    using s by (simp_all add: t calculateEndTimes_def calculateEndTimes_loop_nth)
  then show "map EndTime ?r = [30, 90, 120]"
    by (simp add: r)
qed

theorem calculateEndTimes_endTimes_witness:
  "map StartTime [exampleTrack 0 ''A'' ''T'', exampleTrack 30 ''B'' ''U'', exampleTrack 90 ''C'' ''V'']
     = [0, 30, 90] \<and>
   map EndTime (calculateEndTimes
       [exampleTrack 0 ''A'' ''T'', exampleTrack 30 ''B'' ''U'', exampleTrack 90 ''C'' ''V''] 120)
     = [30, 90, 120] \<and>
   (1::nat) < length [exampleTrack 0 ''A'' ''T'', exampleTrack 30 ''B'' ''U'', exampleTrack 90 ''C'' ''V''] \<and>
   EndTime (calculateEndTimes
       [exampleTrack 0 ''A'' ''T'', exampleTrack 30 ''B'' ''U'', exampleTrack 90 ''C'' ''V''] 7 ! 1) = 90 \<and>
   EndTime (calculateEndTimes
       [exampleTrack 0 ''A'' ''T'', exampleTrack 30 ''B'' ''U'', exampleTrack 90 ''C'' ''V''] 7 ! 2) = 7"
  using calculateEndTimes_endTimes
      [of "[exampleTrack 0 ''A'' ''T'', exampleTrack 30 ''B'' ''U'', exampleTrack 90 ''C'' ''V'']" 120]
    calculateEndTimes_endTimes
      [of "[exampleTrack 0 ''A'' ''T'', exampleTrack 30 ''B'' ''U'', exampleTrack 90 ''C'' ''V'']" 7]
  by (simp add: exampleTrack_def)

section \<open>The metadata of an invocation\<close>








section \<open>Rejected time ranges\<close>

text \<open>
  C8.  A track whose end time is not after its start time is rejected by \<open>processTrack\<close>
  with the time-range error before any invocation of the external tool: nothing is started.
  The unit that holds a slot then adds one to the failure counter and one to the progress
  count, as it does for every track on which \<open>processTrack\<close> returns an error, a failed
  invocation included.
\<close>

theorem processTrack_rejects_time_range:
  "EndTime t \<le> StartTime t \<Longrightarrow>
     processTrack e t inputPath album = ([], Some (InvalidTimeRange (StartTime t) (EndTime t))) \<and>
     started (worker e inputPath album Acquired t st) = started st \<and>
     errCount (worker e inputPath album Acquired t st) = errCount st + 1 \<and>
     bar (worker e inputPath album Acquired t st) = bar st + 1 \<and>
     (snd (processTrack e t' inputPath album) \<noteq> None \<longrightarrow>
        errCount (worker e inputPath album Acquired t' st) = errCount st + 1 \<and>
        bar (worker e inputPath album Acquired t' st) = bar st + 1)"
  by (auto simp: processTrack_def worker_def split: prod.splits option.splits)

theorem processTrack_rejects_time_range_witness:
  "EndTime (exampleTrack 5 ''A'' ''B'') \<le> StartTime (exampleTrack 5 ''A'' ''B'') \<and>
   processTrack failingEnv (exampleTrack 5 ''A'' ''B'') ''in.mp4'' ''Set'' = ([], Some (InvalidTimeRange 5 0)) \<and>
   started (worker failingEnv ''in.mp4'' ''Set'' Acquired (exampleTrack 5 ''A'' ''B'') emptyShared) = [] \<and>
   errCount (worker failingEnv ''in.mp4'' ''Set'' Acquired (exampleTrack 5 ''A'' ''B'') emptyShared) = 1 \<and>
   snd (processTrack failingEnv ((exampleTrack 5 ''A'' ''B'')\<lparr>EndTime := 9\<rparr>) ''in.mp4'' ''Set'') \<noteq> None \<and>
   length (fst (processTrack failingEnv ((exampleTrack 5 ''A'' ''B'')\<lparr>EndTime := 9\<rparr>) ''in.mp4'' ''Set'')) = 1 \<and>
   errCount (worker failingEnv ''in.mp4'' ''Set'' Acquired ((exampleTrack 5 ''A'' ''B'')\<lparr>EndTime := 9\<rparr>) emptyShared) = 1"
  using processTrack_rejects_time_range
    [of "exampleTrack 5 ''A'' ''B''" failingEnv "''in.mp4''" "''Set''" emptyShared
        "(exampleTrack 5 ''A'' ''B'')\<lparr>EndTime := 9\<rparr>"]
  by (simp add: exampleTrack_def emptyShared_def failingEnv_def processTrack_def)


section \<open>Timestamps\<close>

lemma parseTimestamp_loop_done:
  "\<not> i < length parts \<Longrightarrow> parseTimestamp_loop parts i acc = Inr (of_int acc, None)"
  by (subst parseTimestamp_loop.simps) simp

lemma parseTimestamp_loop_ok:
  "i < length parts \<Longrightarrow> Atoi (parts ! (length parts - 1 - i)) = (v, None) \<Longrightarrow> i < 3 \<Longrightarrow>
   parseTimestamp_loop parts i acc =
     parseTimestamp_loop parts (Suc i) (addProduct acc (roundFloat64 v) (multipliers ! i))"
  by (subst parseTimestamp_loop.simps) (simp add: multipliers_def)



lemma bitLength_le: "n < 2 ^ k \<Longrightarrow> bitLength n \<le> k"
proof (induction k arbitrary: n)
  case 0
  then show ?case by (subst bitLength.simps) simp
next
  case (Suc k)
  show ?case
  proof (cases "n \<le> 0")
    case True
    then show ?thesis by (subst bitLength.simps) simp
  next
    case False
    from Suc.prems have "n div 2 < 2 ^ k" by simp
    from Suc.IH [OF this] False show ?thesis by (subst bitLength.simps) simp
  qed
qed

text \<open>An integer below \<open>2 ^ 53\<close> in magnitude is a \<open>float64\<close>, and the operations on such integers are exact.\<close>

lemma roundFloat64_exact: "\<bar>n\<bar> < 2 ^ 53 \<Longrightarrow> roundFloat64 n = n"
  using bitLength_le [of "\<bar>n\<bar>" 53] by (simp add: roundFloat64_def)

lemma addProduct_exact: "\<bar>t\<bar> + \<bar>x * m\<bar> < 2 ^ 53 \<Longrightarrow> addProduct t x m = t + x * m"
proof -
  assume b: "\<bar>t\<bar> + \<bar>x * m\<bar> < 2 ^ 53"
  then have "\<bar>x * m\<bar> < 2 ^ 53" "\<bar>t + x * m\<bar> < 2 ^ 53" by linarith+
  then show ?thesis by (simp add: addProduct_def roundFloat64_exact)
qed

text \<open>Beyond \<open>2 ^ 53\<close> the conversion rounds: \<open>2 ^ 53 + 1\<close> seconds are read as \<open>2 ^ 53\<close>.\<close>

lemma parseTimestamp_rounds:
  "parseTimestamp ''0:9007199254740993'' = Inr (9007199254740992, None)"
  by code_simp

text \<open>
  C6.  \<open>parseTimestamp\<close> gives 3723 for \<open>1:02:03\<close>, 123 for \<open>02:03\<close> and an error for
  \<open>x:03\<close>.  In general the value of a timestamp of one, two or three colon-separated fields
  that \<open>strconv.Atoi\<close> accepts is the weighted sum of the fields, the rightmost times 1, the
  next times 60, the next times 3600, as long as the sum of the magnitudes of the weighted
  fields is below \<open>2 ^ 53\<close>, where \<open>float64\<close> arithmetic on integers is exact.
\<close>

theorem parseTimestamp_weighted_sum:
  "parseTimestamp ''1:02:03'' = Inr (3723, None) \<and>
   parseTimestamp ''02:03'' = Inr (123, None) \<and>
   parseTimestamp ''x:03'' = Inr (0, Some (ErrSyntax ''Atoi'' ''x'')) \<and>
   (Split ts '':'' = [s] \<and> Atoi s = (a, None) \<and> \<bar>a\<bar> < 2 ^ 53 \<longrightarrow>
      parseTimestamp ts = Inr (of_int (a * 1), None)) \<and>
   (Split ts '':'' = [m, s] \<and> Atoi m = (b, None) \<and> Atoi s = (a, None) \<and>
      \<bar>a\<bar> + 60 * \<bar>b\<bar> < 2 ^ 53 \<longrightarrow>
      parseTimestamp ts = Inr (of_int (a * 1 + b * 60), None)) \<and>
   (Split ts '':'' = [h, m, s] \<and> Atoi h = (c, None) \<and> Atoi m = (b, None) \<and> Atoi s = (a, None) \<and>
      \<bar>a\<bar> + 60 * \<bar>b\<bar> + 3600 * \<bar>c\<bar> < 2 ^ 53 \<longrightarrow>
      parseTimestamp ts = Inr (of_int (a * 1 + b * 60 + c * 3600), None))"
proof (intro conjI impI)
  show "parseTimestamp ''1:02:03'' = Inr (3723, None)" by code_simp
  show "parseTimestamp ''02:03'' = Inr (123, None)" by code_simp
  show "parseTimestamp ''x:03'' = Inr (0, Some (ErrSyntax ''Atoi'' ''x''))" by code_simp
next
  assume h: "Split ts '':'' = [s] \<and> Atoi s = (a, None) \<and> \<bar>a\<bar> < 2 ^ 53"
  then have "roundFloat64 a = a" "addProduct 0 a 1 = a"
    by (simp_all add: roundFloat64_exact addProduct_exact)
  with h show "parseTimestamp ts = Inr (of_int (a * 1), None)"
    by (simp add: parseTimestamp_def parseTimestamp_loop_ok parseTimestamp_loop_done multipliers_def)
next
  assume h: "Split ts '':'' = [m, s] \<and> Atoi m = (b, None) \<and> Atoi s = (a, None) \<and>
      \<bar>a\<bar> + 60 * \<bar>b\<bar> < 2 ^ 53"
  then have k: "\<bar>a\<bar> + 60 * \<bar>b\<bar> < 2 ^ 53" by simp
  have "\<bar>b * 60\<bar> = 60 * \<bar>b\<bar>" by (simp add: abs_mult)
  with k have "\<bar>a\<bar> < 2 ^ 53" "\<bar>b\<bar> < 2 ^ 53" "\<bar>a\<bar> + \<bar>b * 60\<bar> < 2 ^ 53"
    by linarith+
  then have "roundFloat64 a = a" "roundFloat64 b = b" "addProduct 0 a 1 = a"
    "addProduct a b 60 = a + b * 60"
    by (simp_all add: roundFloat64_exact addProduct_exact)
  with h show "parseTimestamp ts = Inr (of_int (a * 1 + b * 60), None)"
    by (simp add: parseTimestamp_def parseTimestamp_loop_ok parseTimestamp_loop_done multipliers_def)
next
  assume h: "Split ts '':'' = [h, m, s] \<and> Atoi h = (c, None) \<and> Atoi m = (b, None) \<and>
      Atoi s = (a, None) \<and> \<bar>a\<bar> + 60 * \<bar>b\<bar> + 3600 * \<bar>c\<bar> < 2 ^ 53"
  then have k: "\<bar>a\<bar> + 60 * \<bar>b\<bar> + 3600 * \<bar>c\<bar> < 2 ^ 53" by simp
  have "\<bar>b * 60\<bar> = 60 * \<bar>b\<bar>" "\<bar>c * 3600\<bar> = 3600 * \<bar>c\<bar>" by (simp_all add: abs_mult)
  with k have "\<bar>a\<bar> < 2 ^ 53" "\<bar>b\<bar> < 2 ^ 53" "\<bar>c\<bar> < 2 ^ 53" "\<bar>a\<bar> + \<bar>b * 60\<bar> < 2 ^ 53"
    "\<bar>a + b * 60\<bar> + \<bar>c * 3600\<bar> < 2 ^ 53"
    by linarith+
  then have "roundFloat64 a = a" "roundFloat64 b = b" "roundFloat64 c = c" "addProduct 0 a 1 = a"
    "addProduct a b 60 = a + b * 60" "addProduct (a + b * 60) c 3600 = a + b * 60 + c * 3600"
    by (simp_all add: roundFloat64_exact addProduct_exact)
  with h show "parseTimestamp ts = Inr (of_int (a * 1 + b * 60 + c * 3600), None)"
    by (simp add: parseTimestamp_def parseTimestamp_loop_ok parseTimestamp_loop_done multipliers_def)
qed

theorem parseTimestamp_weighted_sum_witness:
  "Split ''1:02:03'' '':'' = [''1'', ''02'', ''03''] \<and> Atoi ''1'' = (1, None) \<and> Atoi ''02'' = (2, None) \<and>
   Atoi ''03'' = (3, None) \<and> \<bar>3 :: int\<bar> + 60 * \<bar>2\<bar> + 3600 * \<bar>1\<bar> < 2 ^ 53 \<and>
   parseTimestamp ''1:02:03'' = Inr (3 * 1 + 2 * 60 + 1 * 3600, None) \<and>
   Split ''02:03'' '':'' = [''02'', ''03''] \<and> \<bar>3 :: int\<bar> + 60 * \<bar>2\<bar> < 2 ^ 53 \<and>
   parseTimestamp ''02:03'' = Inr (3 * 1 + 2 * 60, None) \<and>
   Split ''7'' '':'' = [''7''] \<and> Atoi ''7'' = (7, None) \<and> \<bar>7 :: int\<bar> < 2 ^ 53 \<and>
   parseTimestamp ''7'' = Inr (7, None)"
proof -
  have s: "Split ''1:02:03'' '':'' = [''1'', ''02'', ''03'']" "Split ''02:03'' '':'' = [''02'', ''03'']"
    "Split ''7'' '':'' = [''7'']"
    by code_simp+
  have a: "Atoi ''1'' = (1, None)" "Atoi ''02'' = (2, None)" "Atoi ''03'' = (3, None)"
    "Atoi ''7'' = (7, None)"
    by code_simp+
  have b: "\<bar>3 :: int\<bar> + 60 * \<bar>2\<bar> + 3600 * \<bar>1\<bar> < 2 ^ 53" "\<bar>3 :: int\<bar> + 60 * \<bar>2\<bar> < 2 ^ 53"
    "\<bar>7 :: int\<bar> < 2 ^ 53"
    by simp_all
  have "parseTimestamp ''1:02:03'' = Inr (of_int (3 * 1 + 2 * 60 + 1 * 3600), None)"
    using parseTimestamp_weighted_sum [of "''1:02:03''" "''03''" 3 "''02''" 2 "''1''" 1] s a b by blast
  moreover have "parseTimestamp ''02:03'' = Inr (of_int (3 * 1 + 2 * 60), None)"
    using parseTimestamp_weighted_sum [of "''02:03''" "''03''" 3 "''02''" 2] s a b by blast
  moreover have "parseTimestamp ''7'' = Inr (of_int (7 * 1), None)"
    using parseTimestamp_weighted_sum [of "''7''" "''7''" 7] s a b by blast
  ultimately show ?thesis
    using s a b by simp
qed

section \<open>Output file names\<close>

lemma createFilenames_loop_length:
  "length (createFilenames_loop i tracks ext) = length tracks"
  by (induction i tracks ext rule: createFilenames_loop.induct)
     (subst createFilenames_loop.simps, simp)

lemma createFilenames_loop_nth:
  "j < length tracks \<Longrightarrow>
   createFilenames_loop i tracks ext ! j =
     (if i \<le> j
      then (tracks ! j)\<lparr>OutputFilename :=
             ''output/'' @ fmt02d (j + 1) @ '' - '' @ sanitizeFilename (MainArtist (tracks ! j))
               @ '' - '' @ sanitizeFilename (MainTitle (tracks ! j)) @ ext\<rparr>
      else tracks ! j)"
proof (induction i tracks ext arbitrary: j rule: createFilenames_loop.induct)
  case (1 i tracks ext)
  show ?case
  proof (cases "i < length tracks")
    case False
    with "1.prems" show ?thesis
      by (subst createFilenames_loop.simps) simp
  next
    case True
    let ?t = "tracks[i := (tracks ! i)\<lparr>OutputFilename :=
             ''output/'' @ fmt02d (i + 1) @ '' - '' @ sanitizeFilename (MainArtist (tracks ! i))
               @ '' - '' @ sanitizeFilename (MainTitle (tracks ! i)) @ ext\<rparr>]"
    have "createFilenames_loop i tracks ext ! j = createFilenames_loop (Suc i) ?t ext ! j"
      using True by (subst createFilenames_loop.simps) simp
    also have "\<dots> = (if Suc i \<le> j
      then (?t ! j)\<lparr>OutputFilename :=
             ''output/'' @ fmt02d (j + 1) @ '' - '' @ sanitizeFilename (MainArtist (?t ! j))
               @ '' - '' @ sanitizeFilename (MainTitle (?t ! j)) @ ext\<rparr>
      else ?t ! j)"
      using "1.IH"[OF True, of j] "1.prems" by simp
    also have "\<dots> = (if i \<le> j
      then (tracks ! j)\<lparr>OutputFilename :=
             ''output/'' @ fmt02d (j + 1) @ '' - '' @ sanitizeFilename (MainArtist (tracks ! j))
               @ '' - '' @ sanitizeFilename (MainTitle (tracks ! j)) @ ext\<rparr>
      else tracks ! j)"
    proof (cases "j = i")
      case True
      with \<open>i < length tracks\<close> show ?thesis by auto
    next
      case False
      with \<open>i < length tracks\<close> "1.prems" show ?thesis by (auto simp: nth_list_update)
    qed
    finally show ?thesis .
  qed
qed

lemma isDigit_char_of: "d < 10 \<Longrightarrow> isDigit (char_of (0x30 + d :: nat))"
  by (simp add: isDigit_def inRange_def)

lemma digitVal_char_of: "d < 10 \<Longrightarrow> digitVal (char_of (0x30 + d :: nat)) = int d"
  by (simp add: digitVal_def)

lemma decimal_digits: "\<forall>c \<in> set (decimal n). isDigit c"
proof (induction n rule: decimal.induct)
  case (1 n)
  show ?case
  proof (cases "n < 10")
    case True
    then show ?thesis by (subst decimal.simps) (simp add: isDigit_char_of)
  next
    case False
    with 1 show ?thesis by (subst decimal.simps) (simp add: isDigit_char_of)
  qed
qed

lemma decimal_value: "foldl (\<lambda>a c. 10 * a + digitVal c) 0 (decimal n) = int n"
proof (induction n rule: decimal.induct)
  case (1 n)
  show ?case
  proof (cases "n < 10")
    case True
    then show ?thesis by (subst decimal.simps) (simp add: digitVal_char_of)
  next
    case False
    have "10 * int (n div 10) + int (n mod 10) = int n" by presburger
    with False 1 show ?thesis by (subst decimal.simps) (simp add: digitVal_char_of)
  qed
qed

lemma decimal_nonempty: "decimal n \<noteq> []"
  by (subst decimal.simps) simp

lemma zeros_value:
  "foldl (\<lambda>a c. 10 * a + digitVal c) 0 (replicate k (CHR ''0'') @ s) = foldl (\<lambda>a c. 10 * a + digitVal c) 0 s"
  by (induction k) (simp_all add: digitVal_def)

lemma fmt02d_value: "foldl (\<lambda>a c. 10 * a + digitVal c) 0 (fmt02d n) = int n"
  by (simp only: fmt02d_def zeros_value decimal_value)

lemma fmt02d_inj: "fmt02d m = fmt02d n \<Longrightarrow> m = n"
  by (metis fmt02d_value of_nat_eq_iff)

lemma fmt02d_digits: "\<forall>c \<in> set (fmt02d n). isDigit c"
  using decimal_digits [of n] by (auto simp: fmt02d_def isDigit_def inRange_def)

lemma fmt02d_takeWhile: "takeWhile isDigit (fmt02d n @ '' - '' @ r) = fmt02d n"
proof -
  have "takeWhile isDigit ('' - '' @ r) = []" by (simp add: isDigit_def inRange_def)
  then show ?thesis using fmt02d_digits [of n] by (simp only: takeWhile_append2 append_Nil2)
 qed

lemma fmt02d_prefix_inj:
  "fmt02d m @ '' - '' @ r = fmt02d n @ '' - '' @ r' \<Longrightarrow> m = n"
  by (metis fmt02d_takeWhile fmt02d_inj)

lemma decimal_length: "10 \<le> n \<Longrightarrow> 2 \<le> length (decimal n)"
  by (subst decimal.simps) (simp add: Suc_le_eq decimal_nonempty)

lemma fmt02d_cases:
  "fmt02d p = (if p < 10 then [CHR ''0'', char_of (0x30 + p)] else decimal p)"
proof (cases "p < 10")
  case True
  then have "decimal p = [char_of (0x30 + p)]" by (subst decimal.simps) simp
  with True show ?thesis by (simp add: fmt02d_def)
next
  case False
  then have "2 \<le> length (decimal p)" by (simp add: decimal_length)
  with False show ?thesis by (simp add: fmt02d_def)
qed


text \<open>The bytes of a rune of more than one byte are not ASCII.\<close>

lemma runeWidth_le4: "runeWidth s \<le> 4"
proof (cases s)
  case Nil then show ?thesis by simp
next
  case (Cons b0 bs)
  then show ?thesis by (simp add: Let_def split: list.split)
qed

lemma runeWidth_ge2:
  assumes "2 \<le> runeWidth s"
  shows "\<exists>b0 b1 r. s = b0 # b1 # r \<and> 0x80 \<le> (of_char b0 :: nat) \<and> 0x80 \<le> (of_char b1 :: nat)"
proof (cases s)
  case Nil with assms show ?thesis by simp
next
  case (Cons b0 bs)
  note s = Cons
  from assms s have hi: "0x80 \<le> (of_char b0 :: nat)"
    by (simp add: Let_def split: if_splits)
  show ?thesis
  proof (cases bs)
    case Nil
    with assms s show ?thesis by (simp add: Let_def split: if_splits)
  next
    case (Cons b1 r)
    have "0x80 \<le> (of_char b1 :: nat)"
    proof (rule ccontr)
      assume "\<not> 0x80 \<le> (of_char b1 :: nat)"
      then have "\<And>lo hi. 0x80 \<le> lo \<Longrightarrow> \<not> inRange b1 lo hi" by (simp add: inRange_def)
      with assms s Cons show False
        by (simp add: Let_def split: if_splits list.splits)
    qed
    with s Cons hi show ?thesis by simp
  qed
qed


lemma runeWidth_ge3:
  assumes "3 \<le> runeWidth s"
  shows "\<exists>b0 b1 b2 r. s = b0 # b1 # b2 # r \<and> 0x80 \<le> (of_char b2 :: nat)"
proof -
  from assms obtain b0 b1 r' where s: "s = b0 # b1 # r'"
    using runeWidth_ge2 [of s] by auto
  show ?thesis
  proof (cases r')
    case Nil
    with assms s show ?thesis by (simp add: Let_def split: if_splits)
  next
    case (Cons b2 r)
    have "0x80 \<le> (of_char b2 :: nat)"
    proof (rule ccontr)
      assume "\<not> 0x80 \<le> (of_char b2 :: nat)"
      then have "\<And>lo hi. 0x80 \<le> lo \<Longrightarrow> \<not> inRange b2 lo hi" by (simp add: inRange_def)
      with assms s Cons show False
        by (simp add: Let_def split: if_splits list.splits)
    qed
    with s Cons show ?thesis by simp
  qed
qed

lemma runeWidth_ge4:
  assumes "4 \<le> runeWidth s"
  shows "\<exists>b0 b1 b2 b3 r. s = b0 # b1 # b2 # b3 # r \<and> 0x80 \<le> (of_char b3 :: nat)"
proof -
  from assms obtain b0 b1 b2 r' where s: "s = b0 # b1 # b2 # r'"
    using runeWidth_ge3 [of s] by auto
  show ?thesis
  proof (cases r')
    case Nil
    with assms s show ?thesis by (simp add: Let_def split: if_splits)
  next
    case (Cons b3 r)
    have "0x80 \<le> (of_char b3 :: nat)"
    proof (rule ccontr)
      assume "\<not> 0x80 \<le> (of_char b3 :: nat)"
      then have "\<And>lo hi. 0x80 \<le> lo \<Longrightarrow> \<not> inRange b3 lo hi" by (simp add: inRange_def)
      with assms s Cons show False
        by (simp add: Let_def split: if_splits list.splits)
    qed
    with s Cons show ?thesis by simp
  qed
qed

lemma runeWidth_multi:
  assumes w: "2 \<le> runeWidth s" and c: "c \<in> set (take (runeWidth s) s)"
  shows "0x80 \<le> (of_char c :: nat)"
proof -
  from w obtain b0 b1 r where s2: "s = b0 # b1 # r" and h01: "0x80 \<le> (of_char b0 :: nat)" "0x80 \<le> (of_char b1 :: nat)"
    using runeWidth_ge2 [of s] by auto
  have "runeWidth s \<le> 4" by (rule runeWidth_le4)
  with w consider "runeWidth s = 2" | "runeWidth s = 3" | "runeWidth s = 4" by linarith
  then show ?thesis
  proof cases
    case 1
    with c s2 h01 show ?thesis by auto
  next
    case 2
    then obtain a0 a1 a2 r' where "s = a0 # a1 # a2 # r'" "0x80 \<le> (of_char a2 :: nat)"
      using runeWidth_ge3 [of s] by auto
    with 2 c s2 h01 show ?thesis by (auto simp: numeral_3_eq_3)
  next
    case 3
    then obtain a0 a1 a2 r' where s3: "s = a0 # a1 # a2 # r'" and h2: "0x80 \<le> (of_char a2 :: nat)"
      using runeWidth_ge3 [of s] by auto
    from 3 obtain d0 d1 d2 d3 r'' where s4: "s = d0 # d1 # d2 # d3 # r''" and h3: "0x80 \<le> (of_char d3 :: nat)"
      using runeWidth_ge4 [of s] by auto
    have "take 4 s = [d0, d1, d2, d3]" by (simp add: s4 numeral_Bit0 numeral_Bit1)
    with 3 c have "c \<in> {d0, d1, d2, d3}" by auto
    with s2 s3 s4 h01 h2 h3 show ?thesis by auto
  qed
qed


lemma high_not_forbidden: "0x80 \<le> (of_char c :: nat) \<Longrightarrow> c \<notin> set forbidden"
  by (auto simp: forbidden_def)

lemma runeWidth_kept:
  "s \<noteq> [] \<Longrightarrow> runeWidth s \<noteq> 0 \<Longrightarrow> \<not> (runeWidth s = 1 \<and> hd s \<in> set forbidden) \<Longrightarrow>
   c \<in> set (take (runeWidth s) s) \<Longrightarrow> c \<notin> set forbidden"
proof -
  assume ne: "s \<noteq> []" and w0: "runeWidth s \<noteq> 0"
    and nf: "\<not> (runeWidth s = 1 \<and> hd s \<in> set forbidden)"
    and c: "c \<in> set (take (runeWidth s) s)"
  show "c \<notin> set forbidden"
  proof (cases "runeWidth s = 1")
    case True
    with ne c have "c = hd s" by (cases s) auto
    with True nf show ?thesis by simp
  next
    case False
    with w0 have "2 \<le> runeWidth s" by simp
    then show ?thesis using c by (intro high_not_forbidden runeWidth_multi)
  qed
qed

lemma sanitizeFilename_no_forbidden: "c \<in> set (sanitizeFilename name) \<Longrightarrow> c \<notin> set forbidden"
proof (induction name rule: sanitizeFilename.induct)
  case (1 name)
  show ?case
  proof (cases "name = []")
    case True
    with "1.prems" show ?thesis by (subst (asm) sanitizeFilename.simps) simp
  next
    case ne: False
    show ?thesis
    proof (cases "runeWidth name = 0")
      case True
      with ne "1.prems" have "c \<in> set [CHR 0xEF, CHR 0xBF, CHR 0xBD] \<or> c \<in> set (sanitizeFilename (tl name))"
        by (subst (asm) sanitizeFilename.simps) auto
      then show ?thesis
      proof
        assume "c \<in> set [CHR 0xEF, CHR 0xBF, CHR 0xBD]"
        then show ?thesis by (auto simp: forbidden_def)
      next
        assume "c \<in> set (sanitizeFilename (tl name))"
        with "1.IH"(1) ne True show ?thesis by simp
      qed
    next
      case w0: False
      show ?thesis
      proof (cases "runeWidth name = 1 \<and> hd name \<in> set forbidden")
        case True
        with ne w0 "1.prems" have "c \<in> set (sanitizeFilename (tl name))"
          by (subst (asm) sanitizeFilename.simps) auto
        with "1.IH"(2) ne w0 True show ?thesis by simp
      next
        case False
        with ne w0 "1.prems" have "c \<in> set (take (runeWidth name) name) \<or>
            c \<in> set (sanitizeFilename (drop (runeWidth name) name))"
          by (subst (asm) sanitizeFilename.simps) auto
        then show ?thesis
        proof
          assume "c \<in> set (take (runeWidth name) name)"
          with ne w0 False show ?thesis by (rule runeWidth_kept)
        next
          assume "c \<in> set (sanitizeFilename (drop (runeWidth name) name))"
          with "1.IH"(3) ne w0 False show ?thesis by simp
        qed
      qed
    qed
  qed
qed

lemma sanitizeFilename_filter:
  "validUTF8 name \<Longrightarrow> sanitizeFilename name = filter (\<lambda>c. c \<notin> set forbidden) name"
proof (induction name rule: sanitizeFilename.induct)
  case (1 name)
  show ?case
  proof (cases "name = []")
    case True
    then show ?thesis by (subst sanitizeFilename.simps) simp
  next
    case ne: False
    from "1.prems" ne have w0: "runeWidth name \<noteq> 0" and v: "validUTF8 (drop (runeWidth name) name)"
      by (subst (asm) validUTF8.simps, simp split: if_splits)+
    show ?thesis
    proof (cases "runeWidth name = 1 \<and> hd name \<in> set forbidden")
      case True
      with v have "validUTF8 (tl name)" by (simp add: drop_Suc)
      with "1.IH"(2) ne w0 True have "sanitizeFilename (tl name) = filter (\<lambda>c. c \<notin> set forbidden) (tl name)"
        by simp
      with ne w0 True show ?thesis
        by (subst sanitizeFilename.simps) (cases name, auto)
    next
      case False
      from "1.IH"(3) ne w0 False v
      have ih: "sanitizeFilename (drop (runeWidth name) name) =
          filter (\<lambda>c. c \<notin> set forbidden) (drop (runeWidth name) name)"
        by simp
      have keep: "filter (\<lambda>c. c \<notin> set forbidden) (take (runeWidth name) name) = take (runeWidth name) name"
        using runeWidth_kept [OF ne w0 False] by (simp add: filter_id_conv)
      have "filter (\<lambda>c. c \<notin> set forbidden) name =
          filter (\<lambda>c. c \<notin> set forbidden) (take (runeWidth name) name @ drop (runeWidth name) name)"
        by simp
      also have "\<dots> = take (runeWidth name) name @ sanitizeFilename (drop (runeWidth name) name)"
        by (simp only: filter_append keep ih)
      finally show ?thesis
        using ne w0 False by (subst sanitizeFilename.simps) auto
    qed
  qed
qed


text \<open>
  C7.  \<open>createFilenames\<close> keeps the number of tracks and gives the track at index \<open>i\<close>,
  that is at position \<open>i + 1\<close>, the name \<open>output/\<close>, the position padded with a zero to
  two digits, \<open>" - "\<close>, the sanitized main artist, \<open>" - "\<close>, the sanitized main title and
  the extension.  No character of \<open><>:"/\|?*\<close> is left in a sanitized name, and on
  well-formed UTF-8 sanitizing removes exactly these characters and changes nothing else.
  The names of one slice are pairwise different.  The name of a track is a function of its
  position, artist, title and the extension alone; the units of the pipeline only read it.
\<close>

theorem createFilenames_names:
  "length (createFilenames tracks ext) = length tracks \<and>
   (\<forall>i < length tracks.
      OutputFilename (createFilenames tracks ext ! i) =
        ''output/'' @ fmt02d (i + 1) @ '' - '' @ sanitizeFilename (MainArtist (tracks ! i))
          @ '' - '' @ sanitizeFilename (MainTitle (tracks ! i)) @ ext) \<and>
   (\<forall>p. fmt02d p = (if p < 10 then [CHR ''0'', char_of (0x30 + p)] else decimal p)) \<and>
   (\<forall>name. (\<forall>c \<in> set (sanitizeFilename name). c \<notin> set forbidden) \<and>
           (validUTF8 name \<longrightarrow> sanitizeFilename name = filter (\<lambda>c. c \<notin> set forbidden) name)) \<and>
   distinct (map OutputFilename (createFilenames tracks ext))"
proof (intro conjI allI impI ballI)
  show "length (createFilenames tracks ext) = length tracks"
    by (simp add: createFilenames_def createFilenames_loop_length)
next
  fix i assume "i < length tracks"
  then show "OutputFilename (createFilenames tracks ext ! i) =
        ''output/'' @ fmt02d (i + 1) @ '' - '' @ sanitizeFilename (MainArtist (tracks ! i))
          @ '' - '' @ sanitizeFilename (MainTitle (tracks ! i)) @ ext"
    by (simp add: createFilenames_def createFilenames_loop_nth)
next
  fix p show "fmt02d p = (if p < 10 then [CHR ''0'', char_of (0x30 + p)] else decimal p)"
    by (rule fmt02d_cases)
next
  fix name c assume "c \<in> set (sanitizeFilename name)"
  then show "c \<notin> set forbidden" by (rule sanitizeFilename_no_forbidden)
next
  fix name assume "validUTF8 name"
  then show "sanitizeFilename name = filter (\<lambda>c. c \<notin> set forbidden) name"
    by (rule sanitizeFilename_filter)
next
  let ?r = "createFilenames tracks ext"
  have len: "length ?r = length tracks"
    by (simp add: createFilenames_def createFilenames_loop_length)
  have "OutputFilename (?r ! i) \<noteq> OutputFilename (?r ! j)"
    if "i < length tracks" "j < length tracks" "i \<noteq> j" for i j
  proof
    assume "OutputFilename (?r ! i) = OutputFilename (?r ! j)"
    with that have "fmt02d (i + 1) @ '' - '' @ (sanitizeFilename (MainArtist (tracks ! i))
          @ '' - '' @ sanitizeFilename (MainTitle (tracks ! i)) @ ext) =
        fmt02d (j + 1) @ '' - '' @ (sanitizeFilename (MainArtist (tracks ! j))
          @ '' - '' @ sanitizeFilename (MainTitle (tracks ! j)) @ ext)"
      by (simp add: createFilenames_def createFilenames_loop_nth)
    then have "i + 1 = j + 1" by (rule fmt02d_prefix_inj)
    with \<open>i \<noteq> j\<close> show False by simp
  qed
  then show "distinct (map OutputFilename ?r)"
    by (simp add: distinct_conv_nth len)
qed

theorem createFilenames_names_witness:
  "(0::nat) < length [exampleTrack 0 ''AC/DC'' ''T.N.T.'', exampleTrack 30 ''B'' ''Why?'']  \<and>
   (1::nat) < length [exampleTrack 0 ''AC/DC'' ''T.N.T.'', exampleTrack 30 ''B'' ''Why?'']  \<and>
   validUTF8 ''AC/DC'' \<and> CHR ''C'' \<in> set (sanitizeFilename ''AC/DC'') \<and> (1::nat) < 10 \<and>
   map OutputFilename
     (createFilenames [exampleTrack 0 ''AC/DC'' ''T.N.T.'', exampleTrack 30 ''B'' ''Why?''] ''.mp3'')
     = [''output/01 - ACDC - T.N.T..mp3'', ''output/02 - B - Why.mp3'']"
proof -
  let ?ts = "[exampleTrack 0 ''AC/DC'' ''T.N.T.'', exampleTrack 30 ''B'' ''Why?'']"
  note th = createFilenames_names [of ?ts "''.mp3''"]
  have v: "validUTF8 ''AC/DC''" "validUTF8 ''T.N.T.''" "validUTF8 ''B''" "validUTF8 ''Why?''"
    by code_simp+
  have f: "filter (\<lambda>c. c \<notin> set forbidden) ''AC/DC'' = ''ACDC''"
    "filter (\<lambda>c. c \<notin> set forbidden) ''T.N.T.'' = ''T.N.T.''"
    "filter (\<lambda>c. c \<notin> set forbidden) ''B'' = ''B''"
    "filter (\<lambda>c. c \<notin> set forbidden) ''Why?'' = ''Why''"
    by (simp_all add: forbidden_def)
  from th v f have s: "sanitizeFilename ''AC/DC'' = ''ACDC''" "sanitizeFilename ''T.N.T.'' = ''T.N.T.''"
    "sanitizeFilename ''B'' = ''B''" "sanitizeFilename ''Why?'' = ''Why''"
    by simp_all
  have c: "char_of (49 :: nat) = CHR ''1''" "char_of (50 :: nat) = CHR ''2''"
    by code_simp+
  from th have d: "fmt02d 1 = ''01''" "fmt02d 2 = ''02''"
    by (simp_all add: c)
  from th have len: "length (createFilenames ?ts ''.mp3'') = Suc (Suc 0)" by simp
  then obtain x y where r: "createFilenames ?ts ''.mp3'' = [x, y]"
    by (auto simp: length_Suc_conv)
  from th have "OutputFilename (createFilenames ?ts ''.mp3'' ! 0) = ''output/01 - ACDC - T.N.T..mp3''"
    using s d by (simp add: exampleTrack_def)
  moreover from th have "OutputFilename (createFilenames ?ts ''.mp3'' ! 1) = ''output/02 - B - Why.mp3''"
    using s d by (simp add: exampleTrack_def)
  ultimately show ?thesis using v s by (simp add: r)
qed

section \<open>Matching\<close>

lemma sub_append: "i \<le> j \<Longrightarrow> j \<le> k \<Longrightarrow> sub w i k = sub w i j @ sub w j k"
proof -
  assume "i \<le> j" "j \<le> k"
  then have "k - i = (j - i) + (k - j)" by simp
  then have "take (k - i) (drop i w) = take (j - i) (drop i w) @ take (k - j) (drop (j - i) (drop i w))"
    by (simp only: take_add)
  with \<open>i \<le> j\<close> show ?thesis by (simp add: sub_def)
qed

lemma run_sound:
  "(j, c') \<in> set (run r w i c) \<Longrightarrow> i \<le> j \<and> sub w i j \<in> lang r"
proof (induction r arbitrary: i j c c')
  case Bol
  then show ?case by (auto simp: sub_def split: if_splits)
next
  case Eol
  then show ?case by (auto simp: sub_def split: if_splits)
next
  case (Cls P)
  then show ?case by (auto simp: sub_def take_Suc_conv_app_nth split: if_splits)
next
  case (Rep P m g)
  let ?xs = "drop i w"
  let ?k = "length (takeWhile P ?xs)"
  from Rep have j: "i + m \<le> j" "j \<le> i + ?k"
    by (auto simp: Let_def split: if_splits)
  then have n: "j - i \<le> ?k" "m \<le> j - i" by simp_all
  have "take (j - i) ?xs = take (j - i) (takeWhile P ?xs @ dropWhile P ?xs)" by simp
  also have "\<dots> = take (j - i) (takeWhile P ?xs)" using n(1) by (simp only: take_append) simp
  finally have eq: "sub w i j = take (j - i) (takeWhile P ?xs)" by (simp add: sub_def)
  have "\<forall>c \<in> set (sub w i j). P c"
    unfolding eq by (auto dest: in_set_takeD set_takeWhileD)
  moreover have "m \<le> length (sub w i j)"
    unfolding eq using n by simp
  ultimately show ?case using j by simp
next
  case (Opt r)
  then show ?case by (auto simp: sub_def)
next
  case (Seq r1 r2)
  from Seq.prems obtain k c1 where 1: "(k, c1) \<in> set (run r1 w i c)" and 2: "(j, c') \<in> set (run r2 w k c1)"
    by auto
  from Seq.IH(1)[OF 1] Seq.IH(2)[OF 2] show ?case
    by (auto simp: sub_append [of i k j])
next
  case (Cap n r)
  then show ?case by auto
qed

lemma run_Bol_iff: "(j, c') \<in> set (run Bol w i c) \<longleftrightarrow> i = 0 \<and> j = 0 \<and> c' = c"
  by auto

lemma run_Eol_iff: "(j, c') \<in> set (run Eol w i c) \<longleftrightarrow> i = length w \<and> j = i \<and> c' = c"
  by auto

lemma run_Cls_iff:
  "(j, c') \<in> set (run (Cls P) w i c) \<longleftrightarrow> i < length w \<and> P (w ! i) \<and> j = Suc i \<and> c' = c"
  by auto

lemma run_Opt_iff:
  "(j, c') \<in> set (run (Opt r) w i c) \<longleftrightarrow> (j, c') \<in> set (run r w i c) \<or> (j = i \<and> c' = c)"
  by auto

lemma run_Seq_iff:
  "(j, c'') \<in> set (run (Seq r1 r2) w i c) \<longleftrightarrow>
     (\<exists>k c'. (k, c') \<in> set (run r1 w i c) \<and> (j, c'') \<in> set (run r2 w k c'))"
  by auto

lemma run_Cap_iff:
  "(j, c') \<in> set (run (Cap n r) w i c) \<longleftrightarrow>
     (\<exists>c''. (j, c'') \<in> set (run r w i c) \<and> c' = c''(n \<mapsto> (i, j)))"
  by auto

lemma run_Rep_iff:
  "(j, c') \<in> set (run (Rep P m g) w i c) \<longleftrightarrow>
     i + m \<le> j \<and> j \<le> i + length (takeWhile P (drop i w)) \<and> c' = c"
  by (auto simp: Let_def)

lemmas run_iffs = run_Bol_iff run_Eol_iff run_Cls_iff run_Rep_iff run_Opt_iff run_Seq_iff run_Cap_iff

lemma lineRe_run:
  assumes "(j, c) \<in> set (run lineRe w p c0)"
  shows "p = 0 \<and> 0 < length w \<and> w ! 0 = CHR ''['' \<and>
         (\<exists>k c''. c 1 = Some (1, k) \<and> (k, c'') \<in> set (run tsRe w 1 c0))"
proof -
  from assms obtain k1 c1 k2 c2 where
    p: "p = 0" "0 < length w" "w ! 0 = CHR ''[''" and
    g1: "(k1, c1) \<in> set (run (Cap 1 tsRe) w 1 c0)" and
    g2: "(k2, c2) \<in> set (run (Cap 2 (Rep reDot 1 False)) w (Suc (Suc k1)) c1)" and
    g3: "(j, c) \<in> set (run (Seq (labelRe 3) Eol) w k2 c2)"
    unfolding lineRe_def
    by (simp only: run_Seq_iff run_Bol_iff run_Cls_iff One_nat_def) blast
  from g1 obtain c1' where t: "(k1, c1') \<in> set (run tsRe w 1 c0)" and c1: "c1 1 = Some (1, k1)"
    unfolding run_Cap_iff by (auto simp del: run.simps)
  from g2 have c2: "c2 1 = c1 1"
    unfolding run_Cap_iff run_Rep_iff by (auto simp del: run.simps)
  from g3 have "c 1 = c2 1"
    unfolding labelRe_def run_iffs by (auto simp del: run.simps)
  with p t c1 c2 show ?thesis by auto
qed

lemma wRe_run:
  assumes "(j, c) \<in> set (run wRe w p c0)"
  shows "p = 0 \<and> 1 < length w \<and> w ! 0 = CHR ''w'' \<and> w ! 1 = CHR ''/''"
  using assms unfolding wRe_def
  by (simp only: run_Seq_iff run_Bol_iff run_Cls_iff One_nat_def) (auto simp del: run.simps)

lemma FindStringSubmatch_Some:
  assumes "FindStringSubmatch r w = Some m"
  shows "\<exists>p j c. (j, c) \<in> set (run r w p Map.empty) \<and>
           m = map (\<lambda>n. case (c(0 \<mapsto> (p, j))) n of None \<Rightarrow> [] | Some (a, b) \<Rightarrow> sub w a b)
                 [0 ..< Suc (NumSubexp r)]"
proof -
  from assms obtain p j c rest where "run r w p Map.empty = (j, c) # rest"
    and "m = map (\<lambda>n. case (c(0 \<mapsto> (p, j))) n of None \<Rightarrow> [] | Some (a, b) \<Rightarrow> take (b - a) (drop a w))
                 [0 ..< Suc (NumSubexp r)]"
    unfolding FindStringSubmatch_def by (auto split: option.splits list.splits)
  moreover from this have "(j, c) \<in> set (run r w p Map.empty)" by simp
  ultimately show ?thesis unfolding sub_def by blast
qed

lemma FindStringSubmatch_length:
  "FindStringSubmatch r w = Some m \<Longrightarrow> length m = Suc (NumSubexp r)"
  by (auto dest: FindStringSubmatch_Some)

lemma NumSubexp_lineRe: "NumSubexp lineRe = 3"
  by (simp add: lineRe_def tsRe_def labelRe_def)

lemma NumSubexp_wRe: "NumSubexp wRe = 2"
  by (simp add: wRe_def labelRe_def)

lemma lineRe_match:
  assumes "FindStringSubmatch lineRe w = Some m"
  shows "length m = 4 \<and> w \<noteq> [] \<and> hd w = CHR ''['' \<and> m ! 1 \<in> lang tsRe"
proof -
  from FindStringSubmatch_Some [OF assms] obtain p j c where
    r: "(j, c) \<in> set (run lineRe w p Map.empty)" and
    m: "m = map (\<lambda>n. case (c(0 \<mapsto> (p, j))) n of None \<Rightarrow> [] | Some (a, b) \<Rightarrow> sub w a b)
                 [0 ..< Suc (NumSubexp lineRe)]"
    by blast
  from lineRe_run [OF r] obtain k c'' where
    w: "0 < length w" "w ! 0 = CHR ''[''" and c1: "c 1 = Some (1, k)" and
    t: "(k, c'') \<in> set (run tsRe w 1 Map.empty)"
    by blast
  from m have len: "length m = 4" by (simp add: NumSubexp_lineRe)
  have "m ! 1 = (case (c(0 \<mapsto> (p, j))) 1 of None \<Rightarrow> [] | Some (a, b) \<Rightarrow> sub w a b)"
    unfolding m NumSubexp_lineRe by (subst nth_map) simp_all
  with c1 have "m ! 1 = sub w 1 k" by simp
  with run_sound [OF t] have "m ! 1 \<in> lang tsRe" by simp
  with len w show ?thesis by (cases w) auto
qed

lemma wRe_match:
  assumes "FindStringSubmatch wRe w = Some m"
  shows "length m = 3 \<and> HasPrefix w ''w/''"
proof -
  from FindStringSubmatch_Some [OF assms] obtain p j c where
    r: "(j, c) \<in> set (run wRe w p Map.empty)" by blast
  from wRe_run [OF r] have "1 < length w" "w ! 0 = CHR ''w''" "w ! 1 = CHR ''/''" by auto
  then have "HasPrefix w ''w/''"
    by (cases w; cases "tl w") (auto simp: HasPrefix_def)
  with FindStringSubmatch_length [OF assms] show ?thesis by (simp add: NumSubexp_wRe)
qed

section \<open>The fields of a timestamp\<close>
















section \<open>The turns of the parser loop\<close>

lemma parseArtistTitle_none:
  "Index s '' - '' = None \<Longrightarrow> parseArtistTitle s = ([], [], Some (InvalidFormat s))"
  by (simp add: parseArtistTitle_def SplitN2_def)

lemma parseArtistTitle_some:
  "Index s '' - '' = Some i \<Longrightarrow> parseArtistTitle s = (take i s, drop (i + 3) s, None)"
  by (simp add: parseArtistTitle_def SplitN2_def numeral_3_eq_3)

lemma loopBody_blank:
  "TrimSpace text = [] \<Longrightarrow> loopBody tracks cur text = Next tracks cur"
  by (simp add: loopBody_def)

lemma loopBody_start:
  assumes "FindStringSubmatch lineRe (TrimSpace text) = Some m"
  shows "loopBody tracks cur text =
     (case parseTimestamp (m ! 1) of
        Inl p \<Rightarrow> Panics p
      | Inr (start, Some err) \<Rightarrow> Returns err
      | Inr (start, None) \<Rightarrow>
          if HasSuffix (m ! 2) ''On Stage''
          then Next (case cur of Some t \<Rightarrow> tracks @ [t] | None \<Rightarrow> tracks) cur
          else
            (case parseArtistTitle (m ! 2) of
               (artist, title, Some err) \<Rightarrow> Returns err
             | (artist, title, None) \<Rightarrow>
                 Next (case cur of Some t \<Rightarrow> tracks @ [t] | None \<Rightarrow> tracks)
                   (Some \<lparr>StartTime = start, EndTime = 0, MainArtist = artist,
                          MainTitle = title, MainLabel = m ! 3, Additional = [],
                          OutputFilename = []\<rparr>)))"
proof -
  from lineRe_match [OF assms] have "TrimSpace text \<noteq> []" "length m = 4" by simp_all
  then have "(if 3 < length m \<and> m ! 3 \<noteq> [] then m ! 3 else []) = m ! 3" by simp
  with \<open>TrimSpace text \<noteq> []\<close> assms show ?thesis
    by (simp add: loopBody_def Let_def cong: sum.case_cong prod.case_cong option.case_cong if_cong)
qed

lemma loopBody_other:
  assumes "TrimSpace text \<noteq> []" "FindStringSubmatch lineRe (TrimSpace text) = None"
  shows "loopBody tracks cur text =
     (if HasPrefix (TrimSpace text) ''w/'' then
        (case cur of
           None \<Rightarrow> Next tracks cur
         | Some t \<Rightarrow>
             (case FindStringSubmatch wRe (TrimSpace text) of
                None \<Rightarrow> Next tracks cur
              | Some matches \<Rightarrow>
                  (case parseArtistTitle (matches ! 1) of
                     (artist, title, Some err) \<Rightarrow> Returns err
                   | (artist, title, None) \<Rightarrow>
                       Next tracks
                         (Some (t\<lparr>Additional := Additional t @
                                  [\<lparr>Artist = artist, Title = title, Label = matches ! 2\<rparr>]\<rparr>)))))
      else Next tracks cur)"
  using assms by (simp add: loopBody_def Let_def)

lemma w_prefix_no_lineRe:
  "HasPrefix w ''w/'' \<Longrightarrow> FindStringSubmatch lineRe w = None"
proof (rule ccontr)
  assume p: "HasPrefix w ''w/''" and "FindStringSubmatch lineRe w \<noteq> None"
  then obtain m where "FindStringSubmatch lineRe w = Some m" by auto
  from lineRe_match [OF this] have "hd w = CHR ''[''" "w \<noteq> []" by simp_all
  with p show False by (cases w) (auto simp: HasPrefix_def)
qed

lemma w_prefix_nonempty: "HasPrefix w ''w/'' \<Longrightarrow> w \<noteq> []"
  by (auto simp: HasPrefix_def)




lemma parseTracklist_loop_append:
  "parseTracklist_loop tracks cur (xs @ ys) =
     (case parseTracklist_loop tracks cur xs of
        Next tracks' cur' \<Rightarrow> parseTracklist_loop tracks' cur' ys
      | Panics p \<Rightarrow> Panics p
      | Returns err \<Rightarrow> Returns err)"
proof (induction xs arbitrary: tracks cur)
  case Nil
  then show ?case by simp
next
  case (Cons x xs)
  then show ?case by (cases "loopBody tracks cur x") simp_all
qed



lemma loopBody_Next_open:
  assumes "loopBody tracks cur x = Next tracks' cur'"
  shows "(cur' \<noteq> None \<longleftrightarrow> cur \<noteq> None \<or> opensTrack x) \<and> (tracks' \<noteq> [] \<longrightarrow> tracks \<noteq> [] \<or> cur \<noteq> None)"
proof (cases "TrimSpace x = []")
  case True
  then have "FindStringSubmatch lineRe (TrimSpace x) = None"
    using lineRe_match [of "TrimSpace x"] by (cases "FindStringSubmatch lineRe (TrimSpace x)") auto
  with True assms show ?thesis by (simp add: loopBody_blank opensTrack_def)
next
  case ne: False
  show ?thesis
  proof (cases "FindStringSubmatch lineRe (TrimSpace x)")
    case None
    with ne assms show ?thesis
      by (auto simp: loopBody_other opensTrack_def split: if_splits option.splits prod.splits)
  next
    case (Some m)
    with assms show ?thesis
      by (auto simp: loopBody_start [OF Some] opensTrack_def
               split: sum.splits if_splits option.splits prod.splits)
  qed
qed

lemma parseTracklist_loop_Next_open:
  assumes "parseTracklist_loop tracks cur ls = Next tracks' cur'" and "tracks \<noteq> [] \<longrightarrow> cur \<noteq> None"
  shows "(cur' \<noteq> None \<longleftrightarrow> cur \<noteq> None \<or> (\<exists>x \<in> set ls. opensTrack x)) \<and> (tracks' \<noteq> [] \<longrightarrow> cur' \<noteq> None)"
  using assms
proof (induction ls arbitrary: tracks cur)
  case Nil
  then show ?case by simp
next
  case (Cons y ys)
  show ?case
  proof (cases "loopBody tracks cur y")
    case (Panics p)
    with Cons.prems show ?thesis by simp
  next
    case (Returns err)
    with Cons.prems show ?thesis by simp
  next
    case (Next t1 c1)
    from loopBody_Next_open [OF Next] Cons.prems(2)
    have s: "c1 \<noteq> None \<longleftrightarrow> cur \<noteq> None \<or> opensTrack y" "t1 \<noteq> [] \<longrightarrow> c1 \<noteq> None" by auto
    from Cons.prems(1) Next have "parseTracklist_loop t1 c1 ys = Next tracks' cur'" by simp
    from Cons.IH [OF this s(2)] s(1) show ?thesis by auto
  qed
qed

section \<open>The parser returns a sequence that may be empty\<close>

text \<open>
  C2, as the code has it.  When parsing succeeds, the returned sequence of tracks is not
  empty exactly when some line after the header opens a track, that is, is a track-start
  line other than a stage announcement.  The parser has no check that rejects an input
  without such a line.
\<close>

theorem parse_nonempty_iff_track_opened:
  "parseTracklist (Opened lines scanErr) = Inr (tracks, header, None) \<Longrightarrow>
   (tracks \<noteq> [] \<longleftrightarrow> (\<exists>x \<in> set (tl lines). opensTrack x))"
proof -
  assume a: "parseTracklist (Opened lines scanErr) = Inr (tracks, header, None)"
  then obtain t1 c1 where l: "parseTracklist_loop [] None (tl lines) = Next t1 c1"
    and t: "tracks = (case c1 of Some t \<Rightarrow> t1 @ [t] | None \<Rightarrow> t1)"
    by (cases "parseTracklist_loop [] None (tl lines)") (auto simp: parseTracklist_def Let_def)
  from parseTracklist_loop_Next_open [OF l]
  have "c1 \<noteq> None \<longleftrightarrow> (\<exists>x \<in> set (tl lines). opensTrack x)" "t1 \<noteq> [] \<longrightarrow> c1 \<noteq> None" by auto
  with t show ?thesis by (cases c1) auto
qed

theorem parse_nonempty_iff_track_opened_witness:
  "parseTracklist (Opened [''Album'', ''[0:00] A - B''] None)
     = Inr ([exampleTrack 0 ''A'' ''B''], ''Album'', None) \<and>
   (\<exists>x \<in> set (tl [''Album'', ''[0:00] A - B'']). opensTrack x)"
proof -
  have e: "parseTracklist (Opened [''Album'', ''[0:00] A - B''] None)
     = Inr ([exampleTrack 0 ''A'' ''B''], ''Album'', None)"
    by code_simp
  from parse_nonempty_iff_track_opened [OF e] e show ?thesis by simp
qed

text \<open>
  C2 as stated fails: for a file that holds the header line alone, parsing succeeds and the
  sequence of tracks is empty.
\<close>

theorem parse_header_only_succeeds_empty:
  "parseTracklist (Opened [''Album''] None) = Inr ([], ''Album'', None)"
  by code_simp

section \<open>Indexing the multipliers\<close>




section \<open>Malformed track-start lines\<close>




section \<open>Stage announcements\<close>

text \<open>
  On a stage announcement the loop has already appended the open track to the result when
  it reaches the test for \<open>On Stage\<close>, and the track stays open.
\<close>

lemma loopBody_stage_announcement:
  assumes "FindStringSubmatch lineRe (TrimSpace x) = Some m"
    and "parseTimestamp (m ! 1) = Inr (start, None)"
    and "HasSuffix (m ! 2) ''On Stage''"
  shows "loopBody tracks (Some t) x = Next (tracks @ [t]) (Some t)"
  using assms(2,3) by (simp add: loopBody_start [OF assms(1)])

text \<open>
  C1 at the input of a header, a track and a stage announcement: the announcement opens no
  track, and the track before it, still open, is in the result twice, where the claim has
  it exactly once.
\<close>

theorem stage_announcement_duplicates_open_track:
  "parseTracklist (Opened [''Album'', ''[0:00] A - B'', ''[1:00] DJ On Stage''] None)
     = Inr ([exampleTrack 0 ''A'' ''B'', exampleTrack 0 ''A'' ''B''], ''Album'', None)"
  by code_simp

section \<open>Continuation lines\<close>

lemma loopBody_continuation:
  assumes "HasPrefix (TrimSpace x) ''w/''"
  shows "loopBody tracks cur x =
     (case cur of
        None \<Rightarrow> Next tracks cur
      | Some t \<Rightarrow>
          (case FindStringSubmatch wRe (TrimSpace x) of
             None \<Rightarrow> Next tracks cur
           | Some matches \<Rightarrow>
               (case parseArtistTitle (matches ! 1) of
                  (artist, title, Some err) \<Rightarrow> Returns err
                | (artist, title, None) \<Rightarrow>
                    Next tracks
                      (Some (t\<lparr>Additional := Additional t @
                               [\<lparr>Artist = artist, Title = title, Label = matches ! 2\<rparr>]\<rparr>)))))"
  using loopBody_other [OF w_prefix_nonempty [OF assms] w_prefix_no_lineRe [OF assms]] assms
  by simp

lemma parseTracklist_drop_line:
  assumes "\<And>tracks cur. parseTracklist_loop [] None pre = Next tracks cur \<Longrightarrow> loopBody tracks cur x = Next tracks cur"
  shows "parseTracklist (Opened (header # pre @ x # post) scanErr) =
         parseTracklist (Opened (header # pre @ post) scanErr)"
proof -
  have "parseTracklist_loop [] None (pre @ x # post) = parseTracklist_loop [] None (pre @ post)"
  proof (cases "parseTracklist_loop [] None pre")
    case (Next tracks cur)
    with assms [OF Next] show ?thesis by (simp add: parseTracklist_loop_append)
  qed (simp_all add: parseTracklist_loop_append)
  then show ?thesis by (simp add: parseTracklist_def)
qed

text \<open>
  C3, as the code has it.  A line that begins with \<open>w/\<close> once trimmed is dropped, and the
  result is that of the input without the line, when \<open>wRe\<close> does not match it (nothing or
  no white space follows the marker) or when no track is open.  When a track is open and
  \<open>wRe\<close> matches the line, a text without \<open>" - "\<close> after the marker is an error that ends
  the parse: \<open>parseTracklist\<close> returns no tracks, an empty header and the error of
  \<open>parseArtistTitle\<close>.
\<close>

theorem continuation_line_dropped_or_fatal:
  "HasPrefix (TrimSpace x) ''w/'' \<Longrightarrow>
   (FindStringSubmatch wRe (TrimSpace x) = None \<or> parseTracklist_loop [] None pre = Next tracks None \<longrightarrow>
      parseTracklist (Opened (header # pre @ x # post) scanErr) =
      parseTracklist (Opened (header # pre @ post) scanErr)) \<and>
   (parseTracklist_loop [] None pre = Next tracks (Some t) \<and>
      FindStringSubmatch wRe (TrimSpace x) = Some m \<and> Index (m ! 1) '' - '' = None \<longrightarrow>
      parseTracklist (Opened (header # pre @ x # post) scanErr) =
      Inr ([], [], Some (InvalidFormat (m ! 1))))"
proof (intro conjI impI)
  assume w: "HasPrefix (TrimSpace x) ''w/''"
    and c: "FindStringSubmatch wRe (TrimSpace x) = None \<or> parseTracklist_loop [] None pre = Next tracks None"
  show "parseTracklist (Opened (header # pre @ x # post) scanErr) =
      parseTracklist (Opened (header # pre @ post) scanErr)"
  proof (rule parseTracklist_drop_line)
    fix tracks' cur' assume l: "parseTracklist_loop [] None pre = Next tracks' cur'"
    from c show "loopBody tracks' cur' x = Next tracks' cur'"
    proof
      assume "FindStringSubmatch wRe (TrimSpace x) = None"
      then show ?thesis by (simp add: loopBody_continuation [OF w] split: option.splits)
    next
      assume "parseTracklist_loop [] None pre = Next tracks None"
      with l have "cur' = None" by simp
      then show ?thesis by (simp add: loopBody_continuation [OF w])
    qed
  qed
next
  assume w: "HasPrefix (TrimSpace x) ''w/''"
    and c: "parseTracklist_loop [] None pre = Next tracks (Some t) \<and>
      FindStringSubmatch wRe (TrimSpace x) = Some m \<and> Index (m ! 1) '' - '' = None"
  then have "loopBody tracks (Some t) x = Returns (InvalidFormat (m ! 1))"
    by (simp add: loopBody_continuation [OF w] parseArtistTitle_none)
  with c have "parseTracklist_loop [] None (pre @ x # post) = Returns (InvalidFormat (m ! 1))"
    by (simp add: parseTracklist_loop_append)
  then show "parseTracklist (Opened (header # pre @ x # post) scanErr) =
      Inr ([], [], Some (InvalidFormat (m ! 1)))"
    by (simp add: parseTracklist_def)
qed

theorem continuation_line_dropped_or_fatal_witness:
  "HasPrefix (TrimSpace ''w/x'') ''w/'' \<and> FindStringSubmatch wRe (TrimSpace ''w/x'') = None \<and>
   parseTracklist (Opened (''Album'' # [''[0:00] A - B''] @ ''w/x'' # [''[1:00] C - D'']) None) =
     Inr ([exampleTrack 0 ''A'' ''B'', exampleTrack 60 ''C'' ''D''], ''Album'', None) \<and>
   HasPrefix (TrimSpace ''w/ Foo'') ''w/'' \<and> parseTracklist_loop [] None [] = Next [] None \<and>
   parseTracklist (Opened (''Album'' # [] @ ''w/ Foo'' # [''[1:00] C - D'']) None) =
     Inr ([exampleTrack 60 ''C'' ''D''], ''Album'', None) \<and>
   parseTracklist_loop [] None [''[0:00] A - B''] = Next [] (Some (exampleTrack 0 ''A'' ''B'')) \<and>
   FindStringSubmatch wRe (TrimSpace ''w/ Foo'') = Some [''w/ Foo'', ''Foo'', []] \<and>
   Index ([''w/ Foo'', ''Foo'', []] ! 1) '' - '' = None \<and>
   parseTracklist (Opened (''Album'' # [''[0:00] A - B''] @ ''w/ Foo'' # [''[1:00] C - D'']) None) =
     Inr ([], [], Some (InvalidFormat ''Foo''))"
proof -
  have w1: "HasPrefix (TrimSpace ''w/x'') ''w/''" by code_simp
  have n1: "FindStringSubmatch wRe (TrimSpace ''w/x'') = None" by code_simp
  have e1: "parseTracklist (Opened (''Album'' # [''[0:00] A - B''] @ [''[1:00] C - D'']) None) =
     Inr ([exampleTrack 0 ''A'' ''B'', exampleTrack 60 ''C'' ''D''], ''Album'', None)" by code_simp
  have r1: "parseTracklist (Opened (''Album'' # [''[0:00] A - B''] @ ''w/x'' # [''[1:00] C - D'']) None) =
     Inr ([exampleTrack 0 ''A'' ''B'', exampleTrack 60 ''C'' ''D''], ''Album'', None)"
    using continuation_line_dropped_or_fatal [where x = "''w/x''" and pre = "[''[0:00] A - B'']"
        and header = "''Album''" and post = "[''[1:00] C - D'']" and scanErr = None,
        OF w1, THEN conjunct1, THEN mp, OF disjI1 [OF n1]]
    by (simp only: e1)
  have w2: "HasPrefix (TrimSpace ''w/ Foo'') ''w/''" by code_simp
  have l2: "parseTracklist_loop [] None [] = Next [] None" by simp
  have e2: "parseTracklist (Opened (''Album'' # [] @ [''[1:00] C - D'']) None) =
     Inr ([exampleTrack 60 ''C'' ''D''], ''Album'', None)" by code_simp
  have r2: "parseTracklist (Opened (''Album'' # [] @ ''w/ Foo'' # [''[1:00] C - D'']) None) =
     Inr ([exampleTrack 60 ''C'' ''D''], ''Album'', None)"
    using continuation_line_dropped_or_fatal [where x = "''w/ Foo''" and pre = "[]"
        and header = "''Album''" and post = "[''[1:00] C - D'']" and scanErr = None,
        OF w2, THEN conjunct1, THEN mp, OF disjI2 [OF l2]]
    by (simp only: e2)
  have l3: "parseTracklist_loop [] None [''[0:00] A - B''] = Next [] (Some (exampleTrack 0 ''A'' ''B''))"
    by code_simp
  have m3: "FindStringSubmatch wRe (TrimSpace ''w/ Foo'') = Some [''w/ Foo'', ''Foo'', []]" by code_simp
  have i3: "Index ([''w/ Foo'', ''Foo'', []] ! 1) '' - '' = None" by code_simp
  have n3: "[''w/ Foo'', ''Foo'', []] ! 1 = ''Foo''" by simp
  have r3: "parseTracklist (Opened (''Album'' # [''[0:00] A - B''] @ ''w/ Foo'' # [''[1:00] C - D'']) None) =
     Inr ([], [], Some (InvalidFormat ''Foo''))"
    using continuation_line_dropped_or_fatal [where x = "''w/ Foo''" and pre = "[''[0:00] A - B'']"
        and header = "''Album''" and post = "[''[1:00] C - D'']" and scanErr = None,
        OF w2, THEN conjunct2, THEN mp, OF conjI [OF l3 conjI [OF m3 i3]]]
    by (simp only: n3)
  show ?thesis
    by (intro conjI w1 n1 r1 w2 l2 r2 l3 m3 i3 r3)
qed

text \<open>
  C3 as stated fails: after an open track, the continuation line \<open>w/ Foo\<close>, which has no
  \<open>" - "\<close>, is not dropped; parsing fails.
\<close>

theorem continuation_without_separator_aborts:
  "HasPrefix ''w/ Foo'' ''w/ '' \<and> Index ''Foo'' '' - '' = None \<and>
   parseTracklist (Opened [''Album'', ''[0:00] A - B'', ''w/ Foo''] None)
     = Inr ([], [], Some (InvalidFormat ''Foo''))"
  by code_simp

end
